theory Spec2Isabelle
  imports
    Complex_Main
    "HOL-Library.Multiset"
    "HOL-Library.Char_ord"
    "HOL-Library.List_Lexorder"
    "HOL-Library.Product_Lexorder"
begin

section \<open>Canonical schema (app/core/schema.py)\<close>

text \<open>
  The pydantic models become records and the string enums become datatypes. Field names
  follow the source; a field name that occurs in two models carries the model's name as
  a prefix (\<open>leg_duration_minutes\<close>, \<open>layover_duration_minutes\<close>). Python \<open>float\<close>
  values are modelled by the real numbers they denote: comparisons are exact, and the
  rounding error of float arithmetic is not part of the model. Python \<open>int\<close> is \<open>int\<close>.
  Fields that no modelled function reads (fare rules, restrictions, aircraft and the
  like) are left out.
\<close>

datatype CabinClass = ECONOMY | PREMIUM_ECONOMY | BUSINESS | FIRST

datatype BaggageType = CARRY_ON | CHECKED | PERSONAL_ITEM

datatype RiskFlag =
    SELF_TRANSFER | TIGHT_CONNECTION | OVERNIGHT_LAYOVER | SEPARATE_TICKETS
  | AIRPORT_CHANGE | LONG_LAYOVER | RED_EYE

text \<open>
  A \<open>datetime\<close> carries its calendar fields (local wall-clock time) and its offset from
  UTC in seconds. All timestamps of one computation are of one kind, as the data model
  prescribes (timezone-aware); naive timestamps behave as offset 0 throughout.
\<close>

record datetime =
  year :: int
  month :: int
  day :: int
  hour :: int
  minute :: int
  second :: int
  microsecond :: int
  utcoffset :: int

record Baggage =
  btype :: BaggageType
  quantity :: int
  weight_kg :: "int option"
  included :: bool
  bag_price_usd :: "real option"

record Airport =
  code :: string
  airport_name :: string
  city :: string
  country :: string

record Leg =
  leg_id :: string
  origin :: Airport
  destination :: Airport
  departure_time :: datetime
  arrival_time :: datetime
  leg_duration_minutes :: int
  airline :: string
  airline_code :: string
  flight_number :: string
  leg_cabin_class :: CabinClass

record Layover =
  airport :: Airport
  layover_duration_minutes :: int
  overnight :: bool
  airport_change :: bool

record PriceBreakdown =
  base_fare_usd :: real
  taxes_usd :: real
  fees_usd :: real
  total_usd :: real

record ProviderMetadata =
  provider_name :: string
  provider_id :: string
  trust_score :: real
  provider_notes :: "string list"

record Signals =
  on_time_proxy :: "real option"

text \<open>The weight dictionary has the seven fixed keys of the scoring dimensions.\<close>

record Weights =
  w_price :: real
  w_duration :: real
  w_stops :: real
  w_layover :: real
  w_baggage :: real
  w_risk :: real
  w_reliability :: real

record ScoreBreakdown =
  price_score :: real
  duration_score :: real
  stops_score :: real
  layover_score :: real
  baggage_score :: real
  risk_score :: real
  reliability_score :: real
  weights :: Weights

record Itinerary =
  itinerary_id :: string
  legs :: "Leg list"
  layovers :: "Layover list"
  num_stops :: int
  total_duration_minutes :: int
  is_direct :: bool
  price :: PriceBreakdown
  baggage :: "Baggage list"
  risk_flags :: "RiskFlag list"
  signals :: Signals
  provider :: ProviderMetadata
  score :: "real option"
  score_breakdown :: "ScoreBreakdown option"
  explanation :: "string option"

record SearchIntent =
  origins :: "string list"
  destinations :: "string list"
  departure_date :: datetime
  cabin_class :: CabinClass
  max_stops :: "int option"
  nonstop_only :: bool
  max_price_usd :: "real option"
  max_duration_hours :: "real option"
  no_red_eyes :: bool
  no_overnight_layovers :: bool
  priority :: string

record PriceReasoning =
  advice :: string
  confidence_score :: real
  predicted_change_usd :: real
  factors :: "string list"

text \<open>
  The exceptions the modelled code can raise: \<open>IndexError\<close> for an index into an empty
  list, \<open>ValueError\<close> for \<open>min\<close> or \<open>max\<close> of an empty list, \<open>ValidationError\<close>
  for a pydantic field constraint that fails at construction. A function that can raise
  returns \<open>error + 'a\<close>, with \<open>Inl\<close> for the exception.
\<close>

datatype error = IndexError | ValueError | ValidationError

section \<open>Dates and times (the operations of Python's datetime the code uses)\<close>

definition is_leap :: "int \<Rightarrow> bool" where
  "is_leap y = (y mod 4 = 0 \<and> (y mod 100 \<noteq> 0 \<or> y mod 400 = 0))"

definition days_before_year :: "int \<Rightarrow> int" where
  "days_before_year y = (let p = y - 1 in p * 365 + p div 4 - p div 100 + p div 400)"

definition days_before_month :: "int \<Rightarrow> int \<Rightarrow> int" where
  "days_before_month y m =
     (if m = 1 then 0 else if m = 2 then 31
      else (if m = 3 then 59 else if m = 4 then 90 else if m = 5 then 120
            else if m = 6 then 151 else if m = 7 then 181 else if m = 8 then 212
            else if m = 9 then 243 else if m = 10 then 273 else if m = 11 then 304
            else 334) + (if is_leap y then 1 else 0))"

definition toordinal :: "datetime \<Rightarrow> int" where
  "toordinal d = days_before_year (year d) + days_before_month (year d) (month d) + day d"

text \<open>\<open>weekday()\<close>: Monday is 0, Sunday is 6.\<close>

definition weekday :: "datetime \<Rightarrow> int" where
  "weekday d = (toordinal d + 6) mod 7"

text \<open>The instant of a timestamp, in microseconds of UTC since ordinal day 0.\<close>

definition utc_microseconds :: "datetime \<Rightarrow> int" where
  "utc_microseconds d =
     ((toordinal d * 86400 + hour d * 3600 + minute d * 60 + second d - utcoffset d) * 1000000
      + microsecond d)"

text \<open>\<open>a - b\<close> is a timedelta, kept as its whole number of microseconds.\<close>

definition dt_sub :: "datetime \<Rightarrow> datetime \<Rightarrow> int" where
  "dt_sub a b = utc_microseconds a - utc_microseconds b"

text \<open>\<open>timedelta.days\<close>: the timedelta is normalised with a non-negative rest, so this is
  the floor.\<close>

definition td_days :: "int \<Rightarrow> int" where
  "td_days us = us div 86400000000"

definition total_seconds :: "int \<Rightarrow> real" where
  "total_seconds us = of_int us / 1000000"

text \<open>Python's \<open>int(x)\<close> on a float truncates towards zero.\<close>

definition py_int :: "real \<Rightarrow> int" where
  "py_int x = (if 0 \<le> x then \<lfloor>x\<rfloor> else \<lceil>x\<rceil>)"

text \<open>Python's \<open>str(n)\<close> on an int, and zero-padded decimal fields of \<open>strftime\<close>.\<close>

definition digit_char :: "nat \<Rightarrow> char" where
  "digit_char d = ''0123456789'' ! d"

fun str_nat :: "nat \<Rightarrow> string" where
  "str_nat n = (if n < 10 then [digit_char n] else str_nat (n div 10) @ [digit_char (n mod 10)])"

declare str_nat.simps [simp del]

definition str_int :: "int \<Rightarrow> string" where
  "str_int i = (if i < 0 then CHR ''-'' # str_nat (nat (- i)) else str_nat (nat i))"

definition zero_pad :: "nat \<Rightarrow> int \<Rightarrow> string" where
  "zero_pad w i = (let s = str_int i in replicate (w - length s) CHR ''0'' @ s)"

text \<open>\<open>sep.join(parts)\<close>.\<close>

fun join :: "string \<Rightarrow> string list \<Rightarrow> string" where
  "join sep [] = []"
| "join sep [p] = p"
| "join sep (p # q # ps) = p @ sep @ join sep (q # ps)"

section \<open>Baggage sub-score (app/core/scoring.py, \<open>_score_baggage\<close>)\<close>

text \<open>The loop over the baggage entries, with the running score as accumulator.\<close>

fun score_baggage_loop :: "Baggage list \<Rightarrow> int \<Rightarrow> int" where
  "score_baggage_loop [] s = s"
| "score_baggage_loop (bag # bags) s =
     (let s1 = (if included bag \<and> btype bag = CARRY_ON then s + 25 else s);
          s2 = (if included bag \<and> btype bag = CHECKED then s1 + 25 else s1)
      in score_baggage_loop bags s2)"

definition score_baggage :: "Itinerary \<Rightarrow> int" where
  "score_baggage itinerary = min (score_baggage_loop (baggage itinerary) 50) 100"

text \<open>The sub-score as the specification words it: a bonus for the presence of a kind of
  bag, however many entries of that kind there are.\<close>

definition baggage_score_spec :: "Itinerary \<Rightarrow> int" where
  "baggage_score_spec itinerary =
     min 100 (50
       + (if \<exists>b \<in> set (baggage itinerary). included b \<and> btype b = CARRY_ON then 25 else 0)
       + (if \<exists>b \<in> set (baggage itinerary). included b \<and> btype b = CHECKED then 25 else 0))"

section \<open>Price advisory (app/core/price_prediction.py, \<open>_analyze\<close>)\<close>

text \<open>
  The source reads the clock (\<open>datetime.now()\<close>); the model takes the current time as the
  argument \<open>now\<close>. The itinerary argument of the source is not read by \<open>_analyze\<close>.
  The three steps run in the source's order on the four local variables.
\<close>

definition advance_purchase ::
  "int \<Rightarrow> string \<times> real \<times> real \<times> string list" where
  "advance_purchase days_to_departure =
     (if days_to_departure < 14 then
        (''buy_now'', 0.9, 50, [''Last minute booking - prices rising daily''])
      else if 14 \<le> days_to_departure \<and> days_to_departure \<le> 21 then
        (''buy_now'', 0.8, 20, [''Entering high-price window (< 21 days)''])
      else if 21 < days_to_departure \<and> days_to_departure \<le> 60 then
        (''monitor'', 0.6, 0, [''Standard booking window''])
      else if days_to_departure > 90 then
        (''wait'', 0.75, -30, [''Booking too early - airlines drop prices ~60 days out''])
      else (''monitor'', 0.5, 0, []))"

definition day_of_week_logic ::
  "int \<Rightarrow> string \<times> real \<times> real \<times> string list \<Rightarrow> string \<times> real \<times> real \<times> string list" where
  "day_of_week_logic day_of_week st =
     (let (advice0, confidence, change0, factors0) = st;
          (advice1, change1, factors1) =
            (if day_of_week \<in> {4, 6} then
               (let f = factors0 @ [''Weekend departure premium applied''] in
                if advice0 = ''monitor''
                then (''wait'', change0 - 15, f @ [''Flying Tue/Wed could save ~10%''])
                else (advice0, change0, f))
             else (advice0, change0, factors0));
          (advice2, factors2) =
            (if day_of_week \<in> {1, 2} then
               (let f = factors1 @ [''Mid-week savings detected''] in
                if advice1 = ''monitor'' then (''buy_now'', f) else (advice1, f))
             else (advice1, factors1))
      in (advice2, confidence, change1, factors2))"

definition seasonality ::
  "int \<Rightarrow> string \<times> real \<times> real \<times> string list \<Rightarrow> string \<times> real \<times> real \<times> string list" where
  "seasonality mon st =
     (let (advice0, confidence, change0, factors0) = st in
      if mon \<in> {6, 7, 8, 12} then
        (let f = factors0 @ [''High season demand''] in
         if advice0 = ''wait'' then (''monitor'', confidence, change0 + 10, f)
         else (advice0, confidence, change0, f))
      else st)"

definition analyze :: "datetime \<Rightarrow> Itinerary \<Rightarrow> SearchIntent \<Rightarrow> PriceReasoning" where
  "analyze now itinerary intent =
     (let days_to_departure = td_days (dt_sub (departure_date intent) now);
          day_of_week = weekday (departure_date intent);
          mon = month (departure_date intent);
          (adv, confidence, predicted_change, fs) =
            seasonality mon (day_of_week_logic day_of_week (advance_purchase days_to_departure))
      in \<lparr> advice = adv, confidence_score = min confidence 0.95,
           predicted_change_usd = predicted_change, factors = fs \<rparr>)"

section \<open>Normalizer (app/core/normalize.py)\<close>

text \<open>
  The first loop of \<open>_detect_risks\<close>, over the layovers, with the list \<open>risks\<close> as
  accumulator; the \<open>elif\<close> of the source is the inner \<open>else if\<close>.
\<close>

fun detect_layover_risks :: "Layover list \<Rightarrow> RiskFlag list \<Rightarrow> RiskFlag list" where
  "detect_layover_risks [] risks = risks"
| "detect_layover_risks (layover # rest) risks =
     (let r1 = (if layover_duration_minutes layover < 90 then risks @ [TIGHT_CONNECTION]
                else if 360 \<le> layover_duration_minutes layover
                        \<and> layover_duration_minutes layover < 720
                then risks @ [LONG_LAYOVER] else risks);
          r2 = (if overnight layover \<or> layover_duration_minutes layover \<ge> 720
                then r1 @ [OVERNIGHT_LAYOVER] else r1);
          r3 = (if airport_change layover then r2 @ [AIRPORT_CHANGE] else r2)
      in detect_layover_risks rest r3)"

text \<open>The second loop, over the legs; it stops (\<open>break\<close>) at the first red-eye departure.\<close>

fun detect_red_eye :: "Leg list \<Rightarrow> RiskFlag list \<Rightarrow> RiskFlag list" where
  "detect_red_eye [] risks = risks"
| "detect_red_eye (leg # rest) risks =
     (if hour (departure_time leg) \<ge> 22 \<or> hour (departure_time leg) < 5
      then risks @ [RED_EYE] else detect_red_eye rest risks)"

text \<open>
  \<open>list(set(risks))\<close> removes duplicates; the order in which Python lists the elements
  of a set is not specified. The model uses \<open>remdups\<close>, and the properties below speak
  of the set of flags and of the absence of duplicates only.
\<close>

definition detect_risks :: "Itinerary \<Rightarrow> RiskFlag list" where
  "detect_risks itinerary =
     remdups (detect_red_eye (legs itinerary) (detect_layover_risks (layovers itinerary) []))"

definition normalize :: "Itinerary \<Rightarrow> Itinerary" where
  "normalize itinerary =
     (let it1 = itinerary \<lparr> num_stops := int (length (legs itinerary)) - 1 \<rparr>;
          it2 = it1 \<lparr> is_direct := (num_stops it1 = 0) \<rparr>;
          it3 = (if legs it2 \<noteq> [] then
                   (let first_departure = departure_time (hd (legs it2));
                        last_arrival = arrival_time (last (legs it2));
                        total_minutes =
                          py_int (total_seconds (dt_sub last_arrival first_departure) / 60)
                    in it2 \<lparr> total_duration_minutes := total_minutes \<rparr>)
                 else it2)
      in it3 \<lparr> risk_flags := detect_risks it3 \<rparr>)"

text \<open>
  The whole number of minutes from one instant to another, in integer arithmetic on
  microseconds: the magnitude is rounded down and the sign is kept.
\<close>

definition whole_minutes_between :: "datetime \<Rightarrow> datetime \<Rightarrow> int" where
  "whole_minutes_between a b =
     (let d = utc_microseconds a - utc_microseconds b
      in sgn d * (\<bar>d\<bar> div 60000000))"

text \<open>The risk flags as the specification lists them, one rule per flag.\<close>

definition risk_flags_spec :: "Itinerary \<Rightarrow> RiskFlag set" where
  "risk_flags_spec itinerary =
     {f. (f = TIGHT_CONNECTION \<and> (\<exists>l \<in> set (layovers itinerary). layover_duration_minutes l < 90))
       \<or> (f = LONG_LAYOVER \<and> (\<exists>l \<in> set (layovers itinerary).
              360 \<le> layover_duration_minutes l \<and> layover_duration_minutes l < 720))
       \<or> (f = OVERNIGHT_LAYOVER \<and> (\<exists>l \<in> set (layovers itinerary).
              layover_duration_minutes l \<ge> 720 \<or> overnight l))
       \<or> (f = AIRPORT_CHANGE \<and> (\<exists>l \<in> set (layovers itinerary). airport_change l))
       \<or> (f = RED_EYE \<and> (\<exists>leg \<in> set (legs itinerary).
              hour (departure_time leg) \<ge> 22 \<or> hour (departure_time leg) < 5))}"

section \<open>Cache key (app/core/cache.py, \<open>_generate_cache_key\<close>)\<close>

definition cabin_class_value :: "CabinClass \<Rightarrow> string" where
  "cabin_class_value c =
     (case c of ECONOMY \<Rightarrow> ''economy'' | PREMIUM_ECONOMY \<Rightarrow> ''premium_economy''
      | BUSINESS \<Rightarrow> ''business'' | FIRST \<Rightarrow> ''first'')"

text \<open>\<open>strftime("%Y-%m-%d")\<close>.\<close>

definition strftime_Y_m_d :: "datetime \<Rightarrow> string" where
  "strftime_Y_m_d d = zero_pad 4 (year d) @ ''-'' @ zero_pad 2 (month d) @ ''-'' @ zero_pad 2 (day d)"

text \<open>
  \<open>str(intent.max_stops or "any")\<close>: Python's \<open>or\<close> yields its left operand when that is
  truthy, and \<open>None\<close> and \<open>0\<close> are both falsy.
\<close>

definition stops_field :: "int option \<Rightarrow> string" where
  "stops_field ms = (case ms of None \<Rightarrow> ''any'' | Some n \<Rightarrow> if n \<noteq> 0 then str_int n else ''any'')"

text \<open>The truth value of an \<open>Optional[float]\<close> in a condition: \<open>None\<close> and \<open>0.0\<close> are falsy.\<close>

definition truthy :: "real option \<Rightarrow> bool" where
  "truthy x = (case x of None \<Rightarrow> False | Some v \<Rightarrow> v \<noteq> 0)"

definition generate_cache_key :: "SearchIntent \<Rightarrow> string" where
  "generate_cache_key intent =
     (let date_str = strftime_Y_m_d (departure_date intent);
          key_parts = [''search'',
                       join ''-'' (sort (origins intent)),
                       join ''-'' (sort (destinations intent)),
                       date_str,
                       cabin_class_value (cabin_class intent),
                       stops_field (max_stops intent),
                       priority intent];
          key_parts1 = (if nonstop_only intent then key_parts @ [''nonstop''] else key_parts);
          key_parts2 = (if truthy (max_price_usd intent)
                        then key_parts1 @ [''maxprice'' @ str_int (py_int (the (max_price_usd intent)))]
                        else key_parts1)
      in join '':'' key_parts2)"

text \<open>
  The key grammar as the specification words it: the stops field is the limit whenever
  one is specified, and the price suffix is there whenever a ceiling is set.
\<close>

definition cache_key_spec :: "SearchIntent \<Rightarrow> string" where
  "cache_key_spec intent =
     ''search:'' @ join ''-'' (sort (origins intent))
     @ '':'' @ join ''-'' (sort (destinations intent))
     @ '':'' @ strftime_Y_m_d (departure_date intent)
     @ '':'' @ cabin_class_value (cabin_class intent)
     @ '':'' @ (case max_stops intent of None \<Rightarrow> ''any'' | Some n \<Rightarrow> str_int n)
     @ '':'' @ priority intent
     @ (if nonstop_only intent then '':nonstop'' else [])
     @ (case max_price_usd intent of None \<Rightarrow> []
        | Some p \<Rightarrow> '':maxprice'' @ str_int (py_int p))"

text \<open>The same grammar with the price suffix only for a ceiling other than 0.\<close>

definition cache_key_nonzero_price :: "SearchIntent \<Rightarrow> string" where
  "cache_key_nonzero_price intent =
     ''search:'' @ join ''-'' (sort (origins intent))
     @ '':'' @ join ''-'' (sort (destinations intent))
     @ '':'' @ strftime_Y_m_d (departure_date intent)
     @ '':'' @ cabin_class_value (cabin_class intent)
     @ '':'' @ (case max_stops intent of None \<Rightarrow> ''any'' | Some n \<Rightarrow> str_int n)
     @ '':'' @ priority intent
     @ (if nonstop_only intent then '':nonstop'' else [])
     @ (case max_price_usd intent of None \<Rightarrow> []
        | Some p \<Rightarrow> if p = 0 then [] else '':maxprice'' @ str_int (py_int p))"

section \<open>Intent filter (app/services/orchestrator.py, \<open>_filter_by_intent\<close>)\<close>

text \<open>
  The body of the loop for one itinerary: \<open>Inr True\<close> when the itinerary is appended,
  \<open>Inr False\<close> when a \<open>continue\<close> skips it, \<open>IndexError\<close> when \<open>itin.legs[0]\<close> is read
  on an empty list of legs.
\<close>

definition keep_by_intent :: "SearchIntent \<Rightarrow> Itinerary \<Rightarrow> error + bool" where
  "keep_by_intent intent itin =
     (if legs itin = [] then Inl IndexError
      else
        (let origin_match = code (origin (hd (legs itin))) \<in> set (origins intent);
             destination_match =
               code (destination (last (legs itin))) \<in> set (destinations intent)
         in if \<not> (origin_match \<and> destination_match) then Inr False
            else if nonstop_only intent \<and> \<not> is_direct itin then Inr False
            else if max_stops intent \<noteq> None \<and> num_stops itin > the (max_stops intent)
              then Inr False
            else if truthy (max_price_usd intent)
                    \<and> total_usd (price itin) > the (max_price_usd intent)
              then Inr False
            else if truthy (max_duration_hours intent)
                    \<and> of_int (total_duration_minutes itin) > the (max_duration_hours intent) * 60
              then Inr False
            else if no_red_eyes intent
                    \<and> list_ex (\<lambda>leg. hour (departure_time leg) \<ge> 22
                                    \<or> hour (departure_time leg) < 5) (legs itin)
              then Inr False
            else if no_overnight_layovers intent \<and> list_ex overnight (layovers itin)
              then Inr False
            else Inr True))"

fun filter_loop ::
  "SearchIntent \<Rightarrow> Itinerary list \<Rightarrow> Itinerary list \<Rightarrow> error + Itinerary list" where
  "filter_loop intent [] filtered = Inr filtered"
| "filter_loop intent (itin # rest) filtered =
     (case keep_by_intent intent itin of
        Inl e \<Rightarrow> Inl e
      | Inr keep \<Rightarrow> filter_loop intent rest (if keep then filtered @ [itin] else filtered))"

definition filter_by_intent :: "Itinerary list \<Rightarrow> SearchIntent \<Rightarrow> error + Itinerary list" where
  "filter_by_intent itineraries intent = filter_loop intent itineraries []"

text \<open>
  The conditions of survival as the specification words them; \<open>zero_is_limit\<close> says
  whether a price ceiling or duration limit of 0 counts as a constraint.
\<close>

definition survives :: "bool \<Rightarrow> SearchIntent \<Rightarrow> Itinerary \<Rightarrow> bool" where
  "survives zero_is_limit intent itin =
     (code (origin (hd (legs itin))) \<in> set (origins intent)
      \<and> code (destination (last (legs itin))) \<in> set (destinations intent)
      \<and> (nonstop_only intent \<longrightarrow> is_direct itin)
      \<and> (\<forall>n. max_stops intent = Some n \<longrightarrow> num_stops itin \<le> n)
      \<and> (\<forall>p. max_price_usd intent = Some p \<and> (zero_is_limit \<or> p \<noteq> 0)
             \<longrightarrow> total_usd (price itin) \<le> p)
      \<and> (\<forall>h. max_duration_hours intent = Some h \<and> (zero_is_limit \<or> h \<noteq> 0)
             \<longrightarrow> of_int (total_duration_minutes itin) \<le> h * 60)
      \<and> (no_red_eyes intent \<longrightarrow>
            (\<forall>leg \<in> set (legs itin). \<not> (hour (departure_time leg) \<ge> 22
                                          \<or> hour (departure_time leg) < 5)))
      \<and> (no_overnight_layovers intent \<longrightarrow> (\<forall>l \<in> set (layovers itin). \<not> overnight l)))"

section \<open>Deduplicator (app/core/dedupe.py)\<close>

text \<open>\<open>strftime("%Y%m%d")\<close>.\<close>

definition strftime_Ymd :: "datetime \<Rightarrow> string" where
  "strftime_Ymd d = zero_pad 4 (year d) @ zero_pad 2 (month d) @ zero_pad 2 (day d)"

definition leg_signature :: "Leg \<Rightarrow> string" where
  "leg_signature leg =
     airline_code leg @ flight_number leg @ ''_'' @ strftime_Ymd (departure_time leg)
     @ ''_'' @ code (origin leg) @ ''_'' @ code (destination leg)"

definition compute_signature :: "Itinerary \<Rightarrow> string" where
  "compute_signature itin = join ''|'' (map leg_signature (legs itin))"

text \<open>
  \<open>groups[sig].append(itin)\<close> on a \<open>defaultdict(list)\<close>: the dictionary keeps its keys in
  the order of their first insertion, so it is an association list here.
\<close>

fun add_to_group ::
  "string \<Rightarrow> Itinerary \<Rightarrow> (string \<times> Itinerary list) list \<Rightarrow> (string \<times> Itinerary list) list" where
  "add_to_group sg itin [] = [(sg, [itin])]"
| "add_to_group sg itin ((k, g) # rest) =
     (if k = sg then (k, g @ [itin]) # rest else (k, g) # add_to_group sg itin rest)"

fun group_loop ::
  "Itinerary list \<Rightarrow> (string \<times> Itinerary list) list \<Rightarrow> (string \<times> Itinerary list) list" where
  "group_loop [] groups = groups"
| "group_loop (itin # rest) groups =
     group_loop rest (add_to_group (compute_signature itin) itin groups)"

definition group_by_signature :: "Itinerary list \<Rightarrow> (string \<times> Itinerary list) list" where
  "group_by_signature itineraries = group_loop itineraries []"

text \<open>The sort key \<open>(x.price.total_usd, -x.provider.trust_score)\<close>; pairs are compared
  lexicographically, and \<open>sorted\<close> is stable, as \<open>sort_key\<close> is.\<close>

definition best_key :: "Itinerary \<Rightarrow> real \<times> real" where
  "best_key x = (total_usd (price x), - trust_score (provider x))"

text \<open>\<open>best.provider.notes.append(note)\<close>; the object changed is the one returned.\<close>

definition append_note :: "string \<Rightarrow> Itinerary \<Rightarrow> Itinerary" where
  "append_note note itin =
     itin \<lparr> provider := (provider itin) \<lparr> provider_notes := provider_notes (provider itin) @ [note] \<rparr> \<rparr>"

definition select_best :: "Itinerary list \<Rightarrow> error + Itinerary" where
  "select_best duplicates =
     (case sort_key best_key duplicates of
        [] \<Rightarrow> Inl IndexError
      | best # _ \<Rightarrow>
          if length duplicates > 1 then
            (let other_providers =
                   map (\<lambda>d. provider_name (provider d))
                     (filter (\<lambda>d. itinerary_id d \<noteq> itinerary_id best) duplicates)
             in if other_providers \<noteq> [] then
                  (let note = ''Also available via: '' @ join '', '' other_providers
                   in if note \<notin> set (provider_notes (provider best))
                      then Inr (append_note note best) else Inr best)
                else Inr best)
          else Inr best)"

fun dedupe_loop ::
  "(string \<times> Itinerary list) list \<Rightarrow> Itinerary list \<Rightarrow> error + Itinerary list" where
  "dedupe_loop [] deduplicated = Inr deduplicated"
| "dedupe_loop ((signature, itins) # rest) deduplicated =
     (if length itins = 1 then dedupe_loop rest (deduplicated @ [hd itins])
      else (case select_best itins of
              Inl e \<Rightarrow> Inl e
            | Inr best \<Rightarrow> dedupe_loop rest (deduplicated @ [best])))"

definition deduplicate :: "Itinerary list \<Rightarrow> error + Itinerary list" where
  "deduplicate itineraries =
     (if length itineraries \<le> 1 then Inr itineraries
      else dedupe_loop (group_by_signature itineraries) [])"

text \<open>
  What the winner \<open>w\<close> of a group becomes. The other members of the group are those
  whose itinerary id differs from the winner's; their provider names, in the order of the
  group, make one note. No note is added when there is no such member, or when that very
  note is already among the winner's notes.
\<close>

definition other_provider_names :: "Itinerary \<Rightarrow> Itinerary list \<Rightarrow> string list" where
  "other_provider_names w grp =
     map (\<lambda>d. provider_name (provider d))
       (filter (\<lambda>d. itinerary_id d \<noteq> itinerary_id w) grp)"

definition with_note_once :: "string \<Rightarrow> Itinerary \<Rightarrow> Itinerary" where
  "with_note_once note w =
     (if note \<in> set (provider_notes (provider w)) then w else append_note note w)"

definition with_others_noted :: "Itinerary \<Rightarrow> Itinerary list \<Rightarrow> Itinerary" where
  "with_others_noted w grp =
     (if other_provider_names w grp = [] then w
      else with_note_once
             (''Also available via: '' @ join '', '' (other_provider_names w grp)) w)"

section \<open>Ranker (app/core/scoring.py)\<close>

definition cheap_weights :: Weights where
  "cheap_weights = \<lparr> w_price = 0.50, w_duration = 0.15, w_stops = 0.10, w_layover = 0.05,
     w_baggage = 0.05, w_risk = 0.10, w_reliability = 0.05 \<rparr>"

definition fast_weights :: Weights where
  "fast_weights = \<lparr> w_price = 0.15, w_duration = 0.45, w_stops = 0.20, w_layover = 0.10,
     w_baggage = 0.02, w_risk = 0.05, w_reliability = 0.03 \<rparr>"

definition comfort_weights :: Weights where
  "comfort_weights = \<lparr> w_price = 0.20, w_duration = 0.20, w_stops = 0.15, w_layover = 0.15,
     w_baggage = 0.10, w_risk = 0.15, w_reliability = 0.05 \<rparr>"

definition balanced_weights :: Weights where
  "balanced_weights = \<lparr> w_price = 0.25, w_duration = 0.20, w_stops = 0.15, w_layover = 0.10,
     w_baggage = 0.10, w_risk = 0.15, w_reliability = 0.05 \<rparr>"

definition DEFAULT_WEIGHTS :: "string \<Rightarrow> Weights option" where
  "DEFAULT_WEIGHTS k =
     (if k = ''cheap'' then Some cheap_weights
      else if k = ''fast'' then Some fast_weights
      else if k = ''comfort'' then Some comfort_weights
      else if k = ''balanced'' then Some balanced_weights
      else None)"

text \<open>\<open>str.lower()\<close> on the ASCII letters; no other character lowers to a letter of the four
  profile names.\<close>

definition py_lower :: "string \<Rightarrow> string" where
  "py_lower s =
     map (\<lambda>c. if CHR ''A'' \<le> c \<and> c \<le> CHR ''Z'' then char_of (of_char c + (32::nat)) else c) s"

definition get_weights :: "SearchIntent option \<Rightarrow> Weights" where
  "get_weights search_intent =
     (case search_intent of
        None \<Rightarrow> balanced_weights
      | Some intent \<Rightarrow>
          (case DEFAULT_WEIGHTS (py_lower (priority intent)) of
             Some w \<Rightarrow> w
           | None \<Rightarrow> balanced_weights))"

text \<open>\<open>min(xs)\<close> and \<open>max(xs)\<close> of a list.\<close>

fun py_min :: "'a::linorder list \<Rightarrow> error + 'a" where
  "py_min [] = Inl ValueError"
| "py_min (x # xs) = Inr (fold min xs x)"

fun py_max :: "'a::linorder list \<Rightarrow> error + 'a" where
  "py_max [] = Inl ValueError"
| "py_max (x # xs) = Inr (fold max xs x)"

text \<open>\<open>round(x, 2)\<close>: to the nearest multiple of 0.01, a tie going to the even one.\<close>

definition py_round :: "real \<Rightarrow> int" where
  "py_round x =
     (let f = \<lfloor>x\<rfloor>; d = x - of_int f
      in if d < 1 / 2 then f else if d > 1 / 2 then f + 1
         else if even f then f else f + 1)"

definition round2 :: "real \<Rightarrow> real" where
  "round2 x = of_int (py_round (x * 100)) / 100"

definition score_price :: "Itinerary \<Rightarrow> Itinerary list \<Rightarrow> error + real" where
  "score_price itinerary all_itineraries =
     (let prices = map (\<lambda>itin. total_usd (price itin)) all_itineraries in
      case py_min prices of Inl e \<Rightarrow> Inl e | Inr min_price \<Rightarrow>
      (case py_max prices of Inl e \<Rightarrow> Inl e | Inr max_price \<Rightarrow>
         if max_price = min_price then Inr 100
         else Inr (round2 (100 * (1 - (total_usd (price itinerary) - min_price)
                                        / (max_price - min_price))))))"

definition score_duration :: "Itinerary \<Rightarrow> Itinerary list \<Rightarrow> error + real" where
  "score_duration itinerary all_itineraries =
     (let durations = map total_duration_minutes all_itineraries in
      case py_min durations of Inl e \<Rightarrow> Inl e | Inr min_dur \<Rightarrow>
      (case py_max durations of Inl e \<Rightarrow> Inl e | Inr max_dur \<Rightarrow>
         if max_dur = min_dur then Inr 100
         else Inr (round2 (100 * (1 - of_int (total_duration_minutes itinerary - min_dur)
                                        / of_int (max_dur - min_dur))))))"

definition score_stops :: "Itinerary \<Rightarrow> int" where
  "score_stops itinerary =
     (if num_stops itinerary = 0 then 100 else if num_stops itinerary = 1 then 70
      else if num_stops itinerary = 2 then 40 else 10)"

text \<open>The score one layover contributes: the bucket of its duration, then the penalties.\<close>

definition layover_points :: "Layover \<Rightarrow> real" where
  "layover_points layover =
     (let dur_min = layover_duration_minutes layover;
          s0 = (if 90 \<le> dur_min \<and> dur_min \<le> 180 then 100
                else if 60 \<le> dur_min \<and> dur_min < 90 then 80
                else if dur_min < 60 then 30
                else if 180 < dur_min \<and> dur_min \<le> 360 then 70
                else 40);
          s1 = (if overnight layover then s0 * 0.5 else s0);
          s2 = (if airport_change layover then s1 * 0.6 else s1)
      in s2)"

definition score_layovers :: "Itinerary \<Rightarrow> real" where
  "score_layovers itinerary =
     (if layovers itinerary = [] then 100
      else round2 (sum_list (map layover_points (layovers itinerary))
                   / of_nat (length (layovers itinerary))))"

definition risk_penalties :: "RiskFlag \<Rightarrow> int" where
  "risk_penalties risk =
     (case risk of SELF_TRANSFER \<Rightarrow> 40 | TIGHT_CONNECTION \<Rightarrow> 15 | OVERNIGHT_LAYOVER \<Rightarrow> 10
      | SEPARATE_TICKETS \<Rightarrow> 35 | AIRPORT_CHANGE \<Rightarrow> 20 | LONG_LAYOVER \<Rightarrow> 5 | RED_EYE \<Rightarrow> 8)"

fun score_risk_loop :: "RiskFlag list \<Rightarrow> int \<Rightarrow> int" where
  "score_risk_loop [] base_score = base_score"
| "score_risk_loop (risk # rest) base_score =
     score_risk_loop rest (base_score - risk_penalties risk)"

definition score_risk :: "Itinerary \<Rightarrow> int" where
  "score_risk itinerary = max (score_risk_loop (risk_flags itinerary) 100) 0"

definition score_reliability :: "Itinerary \<Rightarrow> real" where
  "score_reliability itinerary =
     (let s0 = 50 + trust_score (provider itinerary) * 25;
          s1 = (if truthy (on_time_proxy (signals itinerary))
                then s0 + the (on_time_proxy (signals itinerary)) * 25 else s0)
      in round2 (min s1 100))"

text \<open>The constructor \<open>ScoreBreakdown(...)\<close>: pydantic checks the constraints
  \<open>ge=0.0, le=100.0\<close> of the seven fields and raises when one fails.\<close>

definition in_score_range :: "real \<Rightarrow> bool" where
  "in_score_range v = (0 \<le> v \<and> v \<le> 100)"

definition new_ScoreBreakdown ::
  "real \<Rightarrow> real \<Rightarrow> real \<Rightarrow> real \<Rightarrow> real \<Rightarrow> real \<Rightarrow> real \<Rightarrow> Weights \<Rightarrow> error + ScoreBreakdown" where
  "new_ScoreBreakdown p d s l b r rel w =
     (if in_score_range p \<and> in_score_range d \<and> in_score_range s \<and> in_score_range l
         \<and> in_score_range b \<and> in_score_range r \<and> in_score_range rel
      then Inr \<lparr> price_score = p, duration_score = d, stops_score = s, layover_score = l,
                 baggage_score = b, risk_score = r, reliability_score = rel, weights = w \<rparr>
      else Inl ValidationError)"

text \<open>\<open>self.weights\<close> is the argument \<open>w\<close>. Assigning \<open>itinerary.score\<close> is not validated.\<close>

definition calculate_score :: "Weights \<Rightarrow> Itinerary \<Rightarrow> Itinerary list \<Rightarrow> error + Itinerary" where
  "calculate_score w itinerary all_itineraries =
     (case score_price itinerary all_itineraries of Inl e \<Rightarrow> Inl e | Inr p \<Rightarrow>
      (case score_duration itinerary all_itineraries of Inl e \<Rightarrow> Inl e | Inr d \<Rightarrow>
       (let s = of_int (score_stops itinerary);
            l = score_layovers itinerary;
            b = of_int (score_baggage itinerary);
            r = of_int (score_risk itinerary);
            rel = score_reliability itinerary
        in case new_ScoreBreakdown p d s l b r rel w of Inl e \<Rightarrow> Inl e | Inr breakdown \<Rightarrow>
           (let total_score = w_price w * p + w_duration w * d + w_stops w * s
                  + w_layover w * l + w_baggage w * b + w_risk w * r + w_reliability w * rel
            in Inr (itinerary \<lparr> score := Some (round2 total_score),
                                score_breakdown := Some breakdown \<rparr>)))))"

text \<open>
  The loop \<open>for itin in itineraries: self._calculate_score(itin, itineraries)\<close> changes the
  itineraries in place, so the list a later iteration reads holds the itineraries already
  scored (\<open>scored\<close>) followed by those still to do.
\<close>

fun score_loop :: "Weights \<Rightarrow> Itinerary list \<Rightarrow> Itinerary list \<Rightarrow> error + Itinerary list" where
  "score_loop w scored [] = Inr scored"
| "score_loop w scored (itin # rest) =
     (case calculate_score w itin (scored @ itin # rest) of
        Inl e \<Rightarrow> Inl e
      | Inr itin' \<Rightarrow> score_loop w (scored @ [itin']) rest)"

text \<open>
  The explanation text is built with float formatting, which is outside this model; the
  function that builds it is the argument \<open>generate_explanation\<close>. The loop sets the
  explanations in place, in ranked order.
\<close>

fun explain_loop ::
  "(Itinerary \<Rightarrow> Itinerary list \<Rightarrow> string) \<Rightarrow> Itinerary list \<Rightarrow> Itinerary list \<Rightarrow> Itinerary list" where
  "explain_loop generate_explanation explained [] = explained"
| "explain_loop generate_explanation explained (itin # rest) =
     explain_loop generate_explanation
       (explained @ [itin \<lparr> explanation :=
                      Some (generate_explanation itin (explained @ itin # rest)) \<rparr>]) rest"

text \<open>\<open>x.score or 0\<close>.\<close>

definition score_or_0 :: "Itinerary \<Rightarrow> real" where
  "score_or_0 x = (case score x of None \<Rightarrow> 0 | Some v \<Rightarrow> v)"

text \<open>\<open>sorted(..., reverse=True)\<close> keeps candidates of equal score in their order, as the
  stable ascending sort on the negated key does.\<close>

definition rank_itineraries ::
  "Weights \<Rightarrow> (Itinerary \<Rightarrow> Itinerary list \<Rightarrow> string) \<Rightarrow> Itinerary list
     \<Rightarrow> error + Itinerary list" where
  "rank_itineraries w generate_explanation itineraries =
     (if itineraries = [] then Inr []
      else (case score_loop w [] itineraries of
              Inl e \<Rightarrow> Inl e
            | Inr scored \<Rightarrow>
                (let ranked = sort_key (\<lambda>x. - score_or_0 x) scored
                 in Inr (explain_loop generate_explanation [] ranked))))"

text \<open>An itinerary without what the ranker writes, and the weighted sum of a breakdown.\<close>

definition unranked :: "Itinerary \<Rightarrow> Itinerary" where
  "unranked x = x \<lparr> score := None, score_breakdown := None, explanation := None \<rparr>"

definition weighted_sum :: "ScoreBreakdown \<Rightarrow> real" where
  "weighted_sum b =
     w_price (weights b) * price_score b + w_duration (weights b) * duration_score b
     + w_stops (weights b) * stops_score b + w_layover (weights b) * layover_score b
     + w_baggage (weights b) * baggage_score b + w_risk (weights b) * risk_score b
     + w_reliability (weights b) * reliability_score b"

text \<open>The field constraints of the schema on the values the reliability score reads.\<close>

definition schema_valid :: "Itinerary \<Rightarrow> bool" where
  "schema_valid x =
     (0 \<le> trust_score (provider x) \<and> trust_score (provider x) \<le> 1
      \<and> (case on_time_proxy (signals x) of None \<Rightarrow> True | Some p \<Rightarrow> 0 \<le> p \<and> p \<le> 1))"

section \<open>Example data\<close>

definition example_datetime :: datetime where
  "example_datetime = \<lparr> year = 2026, month = 7, day = 17, hour = 8, minute = 0, second = 0,
     microsecond = 0, utcoffset = 0 \<rparr>"

definition JFK :: Airport where
  "JFK = \<lparr> code = ''JFK'', airport_name = ''John F Kennedy Intl'', city = ''New York'',
     country = ''USA'' \<rparr>"

definition LAX :: Airport where
  "LAX = \<lparr> code = ''LAX'', airport_name = ''Los Angeles Intl'', city = ''Los Angeles'',
     country = ''USA'' \<rparr>"

definition example_leg :: Leg where
  "example_leg = \<lparr> leg_id = ''leg_1'', origin = JFK, destination = LAX,
     departure_time = example_datetime,
     arrival_time = example_datetime \<lparr> hour := 11, minute := 30 \<rparr>,
     leg_duration_minutes = 330, airline = ''American Airlines'', airline_code = ''AA'',
     flight_number = ''AA123'', leg_cabin_class = ECONOMY \<rparr>"

definition example_itinerary :: Itinerary where
  "example_itinerary = \<lparr> itinerary_id = ''itin_abc123'', legs = [example_leg], layovers = [],
     num_stops = 0, total_duration_minutes = 330, is_direct = True,
     price = \<lparr> base_fare_usd = 250, taxes_usd = 45, fees_usd = 0, total_usd = 295 \<rparr>,
     baggage = [], risk_flags = [],
     signals = \<lparr> on_time_proxy = None \<rparr>,
     provider = \<lparr> provider_name = ''amadeus'', provider_id = ''p1'', trust_score = 1,
       provider_notes = [] \<rparr>,
     score = None, score_breakdown = None, explanation = None \<rparr>"

definition example_intent :: SearchIntent where
  "example_intent = \<lparr> origins = [''JFK''], destinations = [''LAX''],
     departure_date = example_datetime \<lparr> hour := 0 \<rparr>, cabin_class = ECONOMY,
     max_stops = None, nonstop_only = False, max_price_usd = None,
     max_duration_hours = None, no_red_eyes = False, no_overnight_layovers = False,
     priority = ''cheap'' \<rparr>"

definition example_now :: datetime where
  "example_now = \<lparr> year = 2026, month = 7, day = 6, hour = 12, minute = 0, second = 0,
     microsecond = 0, utcoffset = 0 \<rparr>"

definition SEA :: Airport where
  "SEA = \<lparr> code = ''SEA'', airport_name = ''Seattle-Tacoma Intl'', city = ''Seattle'',
     country = ''USA'' \<rparr>"

definition example_leg2 :: Leg where
  "example_leg2 = \<lparr> leg_id = ''leg_2'', origin = LAX, destination = SEA,
     departure_time = example_datetime \<lparr> hour := 22, minute := 30 \<rparr>,
     arrival_time = example_datetime \<lparr> day := 18, hour := 1, minute := 10 \<rparr>,
     leg_duration_minutes = 160, airline = ''United Airlines'', airline_code = ''UA'',
     flight_number = ''UA456'', leg_cabin_class = ECONOMY \<rparr>"

definition example_layover :: Layover where
  "example_layover = \<lparr> airport = LAX, layover_duration_minutes = 660, overnight = False,
     airport_change = False \<rparr>"

text \<open>A one-stop itinerary whose derived fields are stale on purpose.\<close>

definition one_stop_itinerary :: Itinerary where
  "one_stop_itinerary = example_itinerary \<lparr> itinerary_id := ''itin_def456'',
     legs := [example_leg, example_leg2], layovers := [example_layover],
     num_stops := 5, total_duration_minutes := 0, is_direct := True,
     risk_flags := [SELF_TRANSFER, SELF_TRANSFER] \<rparr>"

text \<open>The same flight offered by two providers, for 100 and for 120.\<close>

definition offer_100 :: Itinerary where
  "offer_100 = example_itinerary \<lparr>
     price := \<lparr> base_fare_usd = 80, taxes_usd = 20, fees_usd = 0, total_usd = 100 \<rparr> \<rparr>"

definition offer_120 :: Itinerary where
  "offer_120 = example_itinerary \<lparr> itinerary_id := ''itin_xyz789'',
     price := \<lparr> base_fare_usd = 95, taxes_usd = 20, fees_usd = 5, total_usd = 120 \<rparr>,
     provider := \<lparr> provider_name = ''skyscanner'', provider_id = ''p2'', trust_score = 0.8,
       provider_notes = [] \<rparr> \<rparr>"

text \<open>The offer for 120 under the itinerary id of the offer for 100, and an offer for 120
  by a third provider with a higher trust score.\<close>

definition offer_120_same_id :: Itinerary where
  "offer_120_same_id = offer_120 \<lparr> itinerary_id := ''itin_abc123'' \<rparr>"

definition offer_120_trusted :: Itinerary where
  "offer_120_trusted = offer_120 \<lparr> itinerary_id := ''itin_kiwi42'',
     provider := \<lparr> provider_name = ''kiwi'', provider_id = ''p3'', trust_score = 0.9,
       provider_notes = [] \<rparr> \<rparr>"

definition carry_on_bag :: Baggage where
  "carry_on_bag = \<lparr> btype = CARRY_ON, quantity = 1, weight_kg = None, included = True,
     bag_price_usd = None \<rparr>"

definition three_carry_ons :: Itinerary where
  "three_carry_ons = example_itinerary \<lparr> baggage := [carry_on_bag, carry_on_bag, carry_on_bag] \<rparr>"

section \<open>Baggage sub-score: properties\<close>

lemma score_baggage_loop_count:
  "score_baggage_loop bags s =
     s + 25 * int (length (filter (\<lambda>b. included b \<and> btype b = CARRY_ON) bags))
       + 25 * int (length (filter (\<lambda>b. included b \<and> btype b = CHECKED) bags))"
  by (induction bags arbitrary: s) (simp_all add: Let_def)

text \<open>
  C1 (as the code has it). The baggage sub-score is 50, plus 25 for every included
  carry-on entry, plus 25 for every included checked entry, capped at 100.
\<close>

theorem score_baggage_per_entry:
  "score_baggage itinerary =
     min 100 (50
       + 25 * int (length (filter (\<lambda>b. included b \<and> btype b = CARRY_ON) (baggage itinerary)))
       + 25 * int (length (filter (\<lambda>b. included b \<and> btype b = CHECKED) (baggage itinerary))))"
  unfolding score_baggage_def score_baggage_loop_count by (simp add: min.commute)

text \<open>
  C1 (as the specification words it) fails: three included carry-on entries and no
  checked bag score 100 in the code, where the specification's formula gives 75.
\<close>

theorem score_baggage_three_carry_ons:
  "score_baggage three_carry_ons = 100 \<and> baggage_score_spec three_carry_ons = 75"
  by (simp add: score_baggage_def baggage_score_spec_def three_carry_ons_def carry_on_bag_def)

theorem score_baggage_per_entry_witness: "score_baggage three_carry_ons = min 100 (50 + 25 * 3 + 25 * 0)"
  using score_baggage_per_entry [of three_carry_ons]
  by (simp add: three_carry_ons_def carry_on_bag_def)

section \<open>Price advisory: properties\<close>

text \<open>
  C3. With 10 days to departure, a Friday departure and the month July: step 1 gives
  buy_now with confidence 0.9 and predicted change +50; the weekend rule appends its
  factor and leaves the advice alone (it is not monitor); the season rule appends its
  factor and leaves the advice alone (it is not wait); the advisory returned is buy_now,
  confidence 0.9, predicted change +50.
\<close>

theorem analyze_ten_days_friday_july:
  assumes "td_days (dt_sub (departure_date intent) now) = 10"
    and "weekday (departure_date intent) = 4"
    and "month (departure_date intent) = 7"
  shows "advance_purchase 10 =
           (''buy_now'', 0.9, 50, [''Last minute booking - prices rising daily''])
       \<and> day_of_week_logic 4 (advance_purchase 10) =
           (''buy_now'', 0.9, 50, [''Last minute booking - prices rising daily'',
              ''Weekend departure premium applied''])
       \<and> seasonality 7 (day_of_week_logic 4 (advance_purchase 10)) =
           (''buy_now'', 0.9, 50, [''Last minute booking - prices rising daily'',
              ''Weekend departure premium applied'', ''High season demand''])
       \<and> analyze now itinerary intent =
           \<lparr> advice = ''buy_now'', confidence_score = 0.9, predicted_change_usd = 50,
             factors = [''Last minute booking - prices rising daily'',
               ''Weekend departure premium applied'', ''High season demand''] \<rparr>"
proof -
  have s1: "advance_purchase 10 =
      (''buy_now'', 0.9, 50, [''Last minute booking - prices rising daily''])"
    by (simp add: advance_purchase_def)
  have s2: "day_of_week_logic 4 (advance_purchase 10) =
      (''buy_now'', 0.9, 50, [''Last minute booking - prices rising daily'',
         ''Weekend departure premium applied''])"
    unfolding s1 by (simp add: day_of_week_logic_def)
  have s3: "seasonality 7 (day_of_week_logic 4 (advance_purchase 10)) =
      (''buy_now'', 0.9, 50, [''Last minute booking - prices rising daily'',
         ''Weekend departure premium applied'', ''High season demand''])"
    unfolding s2 by (simp add: seasonality_def)
  show ?thesis
    using s1 s2 s3 by (simp add: analyze_def assms)
qed

lemma example_days: "td_days (dt_sub (departure_date example_intent) example_now) = 10"
  by (simp add: td_days_def dt_sub_def utc_microseconds_def toordinal_def days_before_year_def
      days_before_month_def is_leap_def example_intent_def example_datetime_def example_now_def)

lemma example_weekday: "weekday (departure_date example_intent) = 4"
  by (simp add: weekday_def toordinal_def days_before_year_def
      days_before_month_def is_leap_def example_intent_def example_datetime_def)

theorem analyze_ten_days_friday_july_witness:
  "td_days (dt_sub (departure_date example_intent) example_now) = 10
   \<and> weekday (departure_date example_intent) = 4
   \<and> month (departure_date example_intent) = 7
   \<and> analyze example_now example_itinerary example_intent =
           \<lparr> advice = ''buy_now'', confidence_score = 0.9, predicted_change_usd = 50,
             factors = [''Last minute booking - prices rising daily'',
               ''Weekend departure premium applied'', ''High season demand''] \<rparr>"
proof -
  have m: "month (departure_date example_intent) = 7"
    by (simp add: example_intent_def example_datetime_def)
  show ?thesis
    using analyze_ten_days_friday_july [OF example_days example_weekday m, of example_itinerary]
      example_days example_weekday m by simp
qed

section \<open>Normalizer: properties\<close>

lemma py_int_minutes:
  "py_int (total_seconds d / 60) = sgn d * (\<bar>d\<bar> div 60000000)"
proof (cases "0 \<le> d")
  case True
  have "total_seconds d / 60 = of_int d / of_int 60000000"
    by (simp add: total_seconds_def)
  then have "\<lfloor>total_seconds d / 60\<rfloor> = d div 60000000"
    by (simp only: floor_divide_of_int_eq)
  moreover have "0 \<le> total_seconds d / 60" using True by (simp add: total_seconds_def)
  ultimately show ?thesis using True by (cases "d = 0") (simp_all add: py_int_def)
next
  case False
  then have neg: "d < 0" by simp
  have "- (total_seconds d / 60) = of_int (- d) / of_int 60000000"
    by (simp add: total_seconds_def)
  then have "\<lfloor>- (total_seconds d / 60)\<rfloor> = (- d) div 60000000"
    by (simp only: floor_divide_of_int_eq)
  then have "\<lceil>total_seconds d / 60\<rceil> = - ((- d) div 60000000)"
    by (simp add: ceiling_def)
  moreover have "\<not> 0 \<le> total_seconds d / 60" using neg by (simp add: total_seconds_def)
  ultimately show ?thesis using neg by (simp add: py_int_def)
qed

text \<open>
  C5. For every itinerary with at least one leg, after \<open>normalize\<close> the number of
  stops is the number of legs minus one, the itinerary is direct exactly when it has no
  stop, and the total duration is the whole number of minutes from the first leg's
  departure to the last leg's arrival.
\<close>

theorem normalize_derived_fields:
  assumes "legs itinerary \<noteq> []"
  shows "num_stops (normalize itinerary) = int (length (legs (normalize itinerary))) - 1
       \<and> is_direct (normalize itinerary) = (num_stops (normalize itinerary) = 0)
       \<and> total_duration_minutes (normalize itinerary) =
           whole_minutes_between (arrival_time (last (legs (normalize itinerary))))
                                 (departure_time (hd (legs (normalize itinerary))))"
  using assms
  by (simp add: normalize_def Let_def py_int_minutes whole_minutes_between_def dt_sub_def)

lemma set_detect_layover_risks:
  "set (detect_layover_risks ls risks) = set risks
     \<union> {f. (f = TIGHT_CONNECTION \<and> (\<exists>l \<in> set ls. layover_duration_minutes l < 90))
       \<or> (f = LONG_LAYOVER \<and> (\<exists>l \<in> set ls.
              360 \<le> layover_duration_minutes l \<and> layover_duration_minutes l < 720))
       \<or> (f = OVERNIGHT_LAYOVER \<and> (\<exists>l \<in> set ls.
              layover_duration_minutes l \<ge> 720 \<or> overnight l))
       \<or> (f = AIRPORT_CHANGE \<and> (\<exists>l \<in> set ls. airport_change l))}"
proof (induction ls arbitrary: risks)
  case Nil
  then show ?case by simp
next
  case (Cons l ls)
  show ?case
    unfolding detect_layover_risks.simps Let_def Cons.IH
    by (rule set_eqI) (simp, blast)
qed

lemma set_detect_red_eye:
  "set (detect_red_eye ls risks) = set risks
     \<union> {f. f = RED_EYE \<and> (\<exists>leg \<in> set ls.
              hour (departure_time leg) \<ge> 22 \<or> hour (departure_time leg) < 5)}"
  by (induction ls arbitrary: risks) auto

lemma set_detect_risks: "set (detect_risks itinerary) = risk_flags_spec itinerary"
  unfolding detect_risks_def risk_flags_spec_def
  by (simp add: set_detect_red_eye set_detect_layover_risks) blast

lemma legs_normalize: "legs (normalize x) = legs x"
  by (simp add: normalize_def Let_def)

lemma layovers_normalize: "layovers (normalize x) = layovers x"
  by (simp add: normalize_def Let_def)

lemma risk_flags_normalize: "risk_flags (normalize x) = detect_risks x"
  by (simp add: normalize_def Let_def detect_risks_def)

lemma distinct_count_list_1: "distinct xs \<Longrightarrow> x \<in> set xs \<Longrightarrow> count_list xs x = 1"
  by (induction xs) auto

text \<open>
  C6. \<open>normalize\<close> recomputes the risk flags as specified: the flags present are
  exactly those the per-layover rules and the red-eye rule give, no flag occurs twice,
  and every flag that is due occurs exactly once.
\<close>

theorem normalize_risk_flags:
  "set (risk_flags (normalize itinerary)) = risk_flags_spec itinerary
   \<and> distinct (risk_flags (normalize itinerary))
   \<and> (\<forall>f \<in> risk_flags_spec itinerary. count_list (risk_flags (normalize itinerary)) f = 1)"
proof -
  have d: "distinct (risk_flags (normalize itinerary))"
    by (simp add: risk_flags_normalize detect_risks_def)
  have s: "set (risk_flags (normalize itinerary)) = risk_flags_spec itinerary"
    by (simp add: risk_flags_normalize set_detect_risks)
  show ?thesis using d s by (simp add: distinct_count_list_1)
qed

text \<open>
  C10. \<open>normalize\<close> is idempotent on the recomputed fields: a second application
  leaves the number of stops, the direct flag and the total duration unchanged and yields
  the same set of risk flags.
\<close>

theorem normalize_idempotent:
  "num_stops (normalize (normalize x)) = num_stops (normalize x)
   \<and> is_direct (normalize (normalize x)) = is_direct (normalize x)
   \<and> total_duration_minutes (normalize (normalize x)) = total_duration_minutes (normalize x)
   \<and> set (risk_flags (normalize (normalize x))) = set (risk_flags (normalize x))"
proof -
  have "normalize (normalize x) = normalize x"
    by (simp add: normalize_def Let_def detect_risks_def)
  then show ?thesis by simp
qed

lemmas datetime_defs = utc_microseconds_def toordinal_def days_before_year_def
  days_before_month_def is_leap_def example_datetime_def

lemmas example_defs = one_stop_itinerary_def example_itinerary_def example_leg_def
  example_leg2_def example_layover_def

lemma normalize_one_stop:
  "normalize one_stop_itinerary = one_stop_itinerary \<lparr> num_stops := 1,
     total_duration_minutes := 1030, is_direct := False,
     risk_flags := [LONG_LAYOVER, RED_EYE] \<rparr>"
  by (simp add: normalize_def detect_risks_def example_defs datetime_defs py_int_def
      total_seconds_def dt_sub_def)

theorem normalize_derived_fields_witness:
  "legs one_stop_itinerary \<noteq> []
   \<and> num_stops (normalize one_stop_itinerary) = 1
   \<and> is_direct (normalize one_stop_itinerary) = False
   \<and> total_duration_minutes (normalize one_stop_itinerary) = 1030
   \<and> whole_minutes_between (arrival_time example_leg2) (departure_time example_leg) = 1030"
proof -
  have l: "legs one_stop_itinerary \<noteq> []" by (simp add: one_stop_itinerary_def)
  have w: "whole_minutes_between (arrival_time example_leg2) (departure_time example_leg) = 1030"
    by (simp add: whole_minutes_between_def example_defs datetime_defs)
  show ?thesis
    using normalize_derived_fields [OF l] l w
    by (simp add: legs_normalize) (simp add: one_stop_itinerary_def)
qed

theorem normalize_idempotent_witness:
  "num_stops (normalize (normalize one_stop_itinerary)) = 1
   \<and> is_direct (normalize (normalize one_stop_itinerary)) = False
   \<and> total_duration_minutes (normalize (normalize one_stop_itinerary)) = 1030
   \<and> set (risk_flags (normalize (normalize one_stop_itinerary))) = {LONG_LAYOVER, RED_EYE}"
  using normalize_idempotent [of one_stop_itinerary] by (simp add: normalize_one_stop)

theorem normalize_risk_flags_witness:
  "risk_flags_spec one_stop_itinerary = {LONG_LAYOVER, RED_EYE}
   \<and> set (risk_flags (normalize one_stop_itinerary)) = {LONG_LAYOVER, RED_EYE}
   \<and> count_list (risk_flags (normalize one_stop_itinerary)) RED_EYE = 1"
proof -
  have s: "risk_flags_spec one_stop_itinerary = {LONG_LAYOVER, RED_EYE}"
    by (auto simp add: risk_flags_spec_def example_defs datetime_defs)
  show ?thesis
    using normalize_risk_flags [of one_stop_itinerary] s by simp
qed

section \<open>Cache key: properties\<close>

lemma join_colon_snoc:
  "ps \<noteq> [] \<Longrightarrow> join sep (ps @ [p]) = join sep ps @ sep @ p"
  by (induction sep ps rule: join.induct) auto

lemma sort_mset_eq: "mset xs = mset ys \<Longrightarrow> sort xs = sort (ys :: string list)"
  by (rule properties_for_sort) simp_all

text \<open>
  C8. Two intents that differ only in the order of their origin codes and of their
  destination codes have the same cache key.
\<close>

theorem cache_key_order_independent:
  assumes "mset os = mset (origins intent)"
    and "mset ds = mset (destinations intent)"
  shows "generate_cache_key (intent \<lparr> origins := os, destinations := ds \<rparr>)
       = generate_cache_key intent"
  using sort_mset_eq [OF assms(1)] sort_mset_eq [OF assms(2)]
  by (simp add: generate_cache_key_def Let_def)

text \<open>
  C2 (as the code has it). For an intent whose stop limit is not 0, the key follows the
  grammar: the stops field is the limit when one is given and \<open>any\<close> when none is; the
  \<open>:nonstop\<close> suffix is there exactly when \<open>nonstop_only\<close> is set; the
  \<open>:maxprice{int}\<close> suffix is there exactly when a price ceiling other than 0 is set.
\<close>

theorem cache_key_grammar:
  assumes "max_stops intent \<noteq> Some 0"
  shows "generate_cache_key intent = cache_key_nonzero_price intent"
  using assms
  by (cases "max_stops intent"; cases "max_price_usd intent")
     (simp_all add: generate_cache_key_def cache_key_nonzero_price_def Let_def
        join_colon_snoc stops_field_def truthy_def)


lemmas key_eval = generate_cache_key_def cache_key_spec_def cache_key_nonzero_price_def
  strftime_Y_m_d_def zero_pad_def str_int_def str_nat.simps digit_char_def
  cabin_class_value_def stops_field_def truthy_def py_int_def
  example_intent_def example_datetime_def

text \<open>
  C2 (as the specification words it) fails: with a price ceiling of 0 the code leaves the
  suffix out, where the grammar of the specification has \<open>:maxprice0\<close>.
\<close>

theorem cache_key_zero_price_ceiling:
  "generate_cache_key (example_intent \<lparr> max_price_usd := Some 0 \<rparr>)
     = ''search:JFK:LAX:2026-07-17:economy:any:cheap''
   \<and> cache_key_spec (example_intent \<lparr> max_price_usd := Some 0 \<rparr>)
     = ''search:JFK:LAX:2026-07-17:economy:any:cheap:maxprice0''"
  by (simp add: key_eval)

text \<open>
  A stop limit of 0 is falsy in \<open>max_stops or "any"\<close>, so the key of a search limited
  to 0 stops is the key of the unlimited search, although \<open>_filter_by_intent\<close> tells
  the two apart (\<open>is not None\<close>).
\<close>

lemma cache_key_zero_stops:
  "generate_cache_key (example_intent \<lparr> max_stops := Some 0 \<rparr>)
     = generate_cache_key (example_intent \<lparr> max_stops := None \<rparr>)
   \<and> generate_cache_key (example_intent \<lparr> max_stops := Some 0 \<rparr>)
     = ''search:JFK:LAX:2026-07-17:economy:any:cheap''"
  by (simp add: key_eval)

theorem cache_key_grammar_witness:
  "generate_cache_key (example_intent \<lparr> origins := [''LAX'', ''JFK''], max_stops := Some 2,
      nonstop_only := True, max_price_usd := Some 499.99 \<rparr>)
     = ''search:JFK-LAX:LAX:2026-07-17:economy:2:cheap:nonstop:maxprice499''"
proof -
  let ?i = "example_intent \<lparr> origins := [''LAX'', ''JFK''], max_stops := Some 2,
      nonstop_only := True, max_price_usd := Some 499.99 \<rparr>"
  have h: "max_stops ?i \<noteq> Some 0" by simp
  have "cache_key_nonzero_price ?i
      = ''search:JFK-LAX:LAX:2026-07-17:economy:2:cheap:nonstop:maxprice499''"
    by (simp add: key_eval)
  with cache_key_grammar [OF h] show ?thesis by simp
qed

theorem cache_key_order_independent_witness:
  "generate_cache_key (example_intent \<lparr> origins := [''JFK'', ''LAX''] \<rparr>)
     = generate_cache_key (example_intent \<lparr> origins := [''LAX'', ''JFK''] \<rparr>)"
proof -
  let ?i = "example_intent \<lparr> origins := [''LAX'', ''JFK''] \<rparr>"
  have o: "mset [''JFK'', ''LAX''] = mset (origins ?i)" by simp
  have d: "mset (destinations ?i) = mset (destinations ?i)" by simp
  show ?thesis
    using cache_key_order_independent [OF o d] by simp
qed

section \<open>Intent filter: properties\<close>

lemma keep_by_intent_survives:
  assumes "legs itin \<noteq> []"
  shows "keep_by_intent intent itin = Inr (survives False intent itin)"
proof -
  have stops: "(max_stops intent \<noteq> None \<and> num_stops itin > the (max_stops intent))
      = (\<not> (\<forall>n. max_stops intent = Some n \<longrightarrow> num_stops itin \<le> n))"
    by (cases "max_stops intent") auto
  have pr: "(truthy (max_price_usd intent) \<and> total_usd (price itin) > the (max_price_usd intent))
      = (\<not> (\<forall>p. max_price_usd intent = Some p \<and> (False \<or> p \<noteq> 0) \<longrightarrow> total_usd (price itin) \<le> p))"
    by (cases "max_price_usd intent") (auto simp: truthy_def)
  have du: "(truthy (max_duration_hours intent)
        \<and> of_int (total_duration_minutes itin) > the (max_duration_hours intent) * 60)
      = (\<not> (\<forall>h. max_duration_hours intent = Some h \<and> (False \<or> h \<noteq> 0)
             \<longrightarrow> of_int (total_duration_minutes itin) \<le> h * 60))"
    by (cases "max_duration_hours intent") (auto simp: truthy_def)
  show ?thesis
    using assms
    unfolding keep_by_intent_def survives_def Let_def stops pr du list_ex_iff
    by auto
qed

lemma filter_loop_survives:
  assumes "\<forall>itin \<in> set itineraries. legs itin \<noteq> []"
  shows "filter_loop intent itineraries filtered
       = Inr (filtered @ filter (survives False intent) itineraries)"
  using assms
  by (induction itineraries arbitrary: filtered) (simp_all add: keep_by_intent_survives)

text \<open>
  C7 (as the code has it). When every candidate has at least one leg, the filter returns,
  in their order, exactly the candidates for which all of these hold: the first leg's
  origin code is among the intent's origins; the last leg's destination code is among the
  intent's destinations; the itinerary is direct if \<open>nonstop_only\<close> is set; the number of
  stops does not exceed a stop limit that is set; the total price does not exceed a price
  ceiling that is set and is not 0; the total duration does not exceed a duration limit
  that is set and is not 0; no leg departs at an hour from 22 to 4 if \<open>no_red_eyes\<close> is
  set; no layover is flagged overnight if \<open>no_overnight_layovers\<close> is set.
\<close>

theorem filter_by_intent_survivors:
  assumes "\<forall>itin \<in> set itineraries. legs itin \<noteq> []"
  shows "filter_by_intent itineraries intent
       = Inr (filter (survives False intent) itineraries)"
  using filter_loop_survives [OF assms] by (simp add: filter_by_intent_def)

lemmas example_defs2 = example_itinerary_def example_leg_def example_intent_def
  example_datetime_def JFK_def LAX_def

text \<open>
  C7 (as the specification words it) fails: with a price ceiling of 0, or a duration limit
  of 0, a candidate above the limit survives the filter.
\<close>

theorem filter_by_intent_zero_price_ceiling:
  "filter_by_intent [example_itinerary] (example_intent \<lparr> max_price_usd := Some 0 \<rparr>)
     = Inr [example_itinerary]
   \<and> \<not> survives True (example_intent \<lparr> max_price_usd := Some 0 \<rparr>) example_itinerary
   \<and> filter_by_intent [example_itinerary] (example_intent \<lparr> max_duration_hours := Some 0 \<rparr>)
     = Inr [example_itinerary]
   \<and> \<not> survives True (example_intent \<lparr> max_duration_hours := Some 0 \<rparr>) example_itinerary"
  by (simp add: filter_by_intent_def keep_by_intent_def survives_def truthy_def example_defs2)

theorem filter_by_intent_survivors_witness:
  "filter_by_intent [example_itinerary, one_stop_itinerary]
       (example_intent \<lparr> max_price_usd := Some 300, max_stops := Some 0 \<rparr>)
     = Inr [example_itinerary]
   \<and> survives False (example_intent \<lparr> max_price_usd := Some 300, max_stops := Some 0 \<rparr>)
        example_itinerary
   \<and> \<not> survives False (example_intent \<lparr> max_price_usd := Some 300, max_stops := Some 0 \<rparr>)
        one_stop_itinerary"
proof -
  let ?i = "example_intent \<lparr> max_price_usd := Some 300, max_stops := Some 0 \<rparr>"
  have l: "\<forall>itin \<in> set [example_itinerary, one_stop_itinerary]. legs itin \<noteq> []"
    by (simp add: example_itinerary_def one_stop_itinerary_def)
  have a: "survives False ?i example_itinerary"
    by (simp add: survives_def example_defs2)
  have b: "\<not> survives False ?i one_stop_itinerary"
    by (simp add: survives_def one_stop_itinerary_def example_defs2)
  show ?thesis
    using filter_by_intent_survivors [OF l, of ?i] a b by simp
qed

section \<open>Deduplicator: properties\<close>

lemma map_of_add_to_group:
  "map_of (add_to_group sg x gs) k =
     (if k = sg then Some (case map_of gs sg of None \<Rightarrow> [x] | Some g \<Rightarrow> g @ [x])
      else map_of gs k)"
  by (induction sg x gs rule: add_to_group.induct) auto

lemma keys_add_to_group: "fst ` set (add_to_group sg x gs) = insert sg (fst ` set gs)"
  by (induction sg x gs rule: add_to_group.induct) auto

lemma distinct_add_to_group:
  "distinct (map fst gs) \<Longrightarrow> distinct (map fst (add_to_group sg x gs))"
proof (induction sg x gs rule: add_to_group.induct)
  case (1 sg itin)
  then show ?case by simp
next
  case (2 sg itin k g rest)
  then show ?case using keys_add_to_group [of sg itin rest] by auto
qed

lemma distinct_group_loop:
  "distinct (map fst gs) \<Longrightarrow> distinct (map fst (group_loop its gs))"
  by (induction its arbitrary: gs) (simp_all add: distinct_add_to_group)

lemma map_of_group_loop:
  "map_of (group_loop its gs) sg =
     (case map_of gs sg of
        None \<Rightarrow> (if filter (\<lambda>x. compute_signature x = sg) its = [] then None
                 else Some (filter (\<lambda>x. compute_signature x = sg) its))
      | Some g \<Rightarrow> Some (g @ filter (\<lambda>x. compute_signature x = sg) its))"
proof (induction its arbitrary: gs)
  case Nil
  then show ?case by (simp split: option.splits)
next
  case (Cons x its)
  show ?case
    unfolding group_loop.simps Cons.IH map_of_add_to_group
    by (simp split: option.splits)
qed

lemma group_by_signature_iff:
  "(sg, grp) \<in> set (group_by_signature its)
     \<longleftrightarrow> grp \<noteq> [] \<and> grp = filter (\<lambda>x. compute_signature x = sg) its"
proof -
  have d: "distinct (map fst (group_by_signature its))"
    unfolding group_by_signature_def by (rule distinct_group_loop) simp
  have "(sg, grp) \<in> set (group_by_signature its)
      \<longleftrightarrow> map_of (group_by_signature its) sg = Some grp"
    using d by simp
  also have "\<dots> \<longleftrightarrow> grp \<noteq> [] \<and> grp = filter (\<lambda>x. compute_signature x = sg) its"
    unfolding group_by_signature_def map_of_group_loop by auto
  finally show ?thesis .
qed

lemma distinct_keys_group_by_signature: "distinct (map fst (group_by_signature its))"
  unfolding group_by_signature_def by (rule distinct_group_loop) simp

lemma sort_key_Cons_first:
  assumes "sort_key f xs = b # bs"
  shows "b \<in> set xs" and "\<forall>x \<in> set xs. f b \<le> f x"
    and "hd (filter (\<lambda>y. f y = f b) xs) = b"
proof -
  have "set (sort_key f xs) = set xs" by simp
  then have s: "set xs = insert b (set bs)" using assms by simp
  then show "b \<in> set xs" by simp
  have "sorted (map f (sort_key f xs))" by (rule sorted_sort_key)
  then have "\<forall>y \<in> set bs. f b \<le> f y" using assms by simp
  then show "\<forall>x \<in> set xs. f b \<le> f x" using s by auto
  have "filter (\<lambda>y. f y = f b) xs = filter (\<lambda>y. f y = f b) (sort_key f xs)"
    by (simp add: sort_key_stable)
  then show "hd (filter (\<lambda>y. f y = f b) xs) = b" using assms by simp
qed

lemma sort_key_nonempty: "xs \<noteq> [] \<Longrightarrow> \<exists>b bs. sort_key f xs = b # bs"
proof -
  assume "xs \<noteq> []"
  then have "length (sort_key f xs) \<noteq> 0" by simp
  then show ?thesis by (cases "sort_key f xs") auto
qed

lemma best_key_le:
  "best_key w \<le> best_key g \<longleftrightarrow>
     total_usd (price w) < total_usd (price g)
     \<or> (total_usd (price w) = total_usd (price g)
        \<and> trust_score (provider g) \<le> trust_score (provider w))"
  by (auto simp: best_key_def less_eq_prod_def)

lemma best_key_eq:
  "best_key g = best_key w \<longleftrightarrow>
     total_usd (price g) = total_usd (price w)
     \<and> trust_score (provider g) = trust_score (provider w)"
  by (simp add: best_key_def)

lemma select_best_winner:
  assumes "1 < length grp"
  shows "\<exists>w. w \<in> set grp \<and> (\<forall>g \<in> set grp. best_key w \<le> best_key g)
           \<and> hd (filter (\<lambda>g. best_key g = best_key w) grp) = w
           \<and> select_best grp = Inr (with_others_noted w grp)"
proof -
  from assms have "grp \<noteq> []" by auto
  then obtain w ws where sk: "sort_key best_key grp = w # ws"
    using sort_key_nonempty by blast
  note first = sort_key_Cons_first [OF sk]
  have "select_best grp = Inr (with_others_noted w grp)"
    using assms
    by (simp add: select_best_def sk with_others_noted_def other_provider_names_def
        with_note_once_def Let_def)
  with first show ?thesis by blast
qed

lemma select_best_legs:
  assumes "grp \<noteq> []"
  shows "\<exists>y w. select_best grp = Inr y \<and> w \<in> set grp \<and> legs y = legs w"
proof -
  obtain w ws where sk: "sort_key best_key grp = w # ws"
    using sort_key_nonempty [OF assms] by blast
  have "w \<in> set grp" using sort_key_Cons_first(1) [OF sk] .
  moreover have "\<exists>y. select_best grp = Inr y \<and> legs y = legs w"
    by (simp add: select_best_def sk Let_def append_note_def)
  ultimately show ?thesis by blast
qed

lemma dedupe_loop_all2:
  assumes "\<forall>(k, g) \<in> set gs. g \<noteq> []"
  shows "\<exists>r. dedupe_loop gs acc = Inr (acc @ r)
           \<and> list_all2 (\<lambda>(k, g) y. (length g = 1 \<and> y = hd g)
                                  \<or> (length g \<noteq> 1 \<and> select_best g = Inr y)) gs r"
  using assms
proof (induction gs arbitrary: acc)
  case Nil
  then show ?case by simp
next
  case (Cons kg gs)
  obtain k g where kg: "kg = (k, g)" by (cases kg)
  from Cons.prems kg have ne: "g \<noteq> []" and rest: "\<forall>(k, g) \<in> set gs. g \<noteq> []" by auto
  show ?case
  proof (cases "length g = 1")
    case True
    from Cons.IH [OF rest, of "acc @ [hd g]"] obtain r where
      "dedupe_loop gs (acc @ [hd g]) = Inr ((acc @ [hd g]) @ r)"
      "list_all2 (\<lambda>(k, g) y. (length g = 1 \<and> y = hd g)
                                  \<or> (length g \<noteq> 1 \<and> select_best g = Inr y)) gs r"
      by blast
    then show ?thesis using True kg by (intro exI [of _ "hd g # r"]) simp
  next
    case False
    from select_best_legs [OF ne] obtain y where y: "select_best g = Inr y" by blast
    from Cons.IH [OF rest, of "acc @ [y]"] obtain r where
      "dedupe_loop gs (acc @ [y]) = Inr ((acc @ [y]) @ r)"
      "list_all2 (\<lambda>(k, g) y. (length g = 1 \<and> y = hd g)
                                  \<or> (length g \<noteq> 1 \<and> select_best g = Inr y)) gs r"
      by blast
    then show ?thesis using False kg y by (intro exI [of _ "y # r"]) simp
  qed
qed

lemma filter_all2_none:
  assumes "list_all2 R gs r"
    and "\<forall>kg \<in> set gs. \<forall>y. R kg y \<longrightarrow> f y = fst kg"
    and "sg \<notin> fst ` set gs"
  shows "filter (\<lambda>x. f x = sg) r = []"
  using assms by (induction rule: list_all2_induct) auto

lemma filter_all2_one:
  assumes "list_all2 R gs r"
    and "distinct (map fst gs)"
    and "\<forall>kg \<in> set gs. \<forall>y. R kg y \<longrightarrow> f y = fst kg"
    and "(sg, grp) \<in> set gs"
  shows "\<exists>y. R (sg, grp) y \<and> filter (\<lambda>x. f x = sg) r = [y]"
  using assms
proof (induction rule: list_all2_induct)
  case Nil
  then show ?case by simp
next
  case (Cons kg gs y r)
  show ?case
  proof (cases "kg = (sg, grp)")
    case True
    with Cons.prems have "sg \<notin> fst ` set gs" by auto
    with Cons.hyps(2) Cons.prems(2) have "filter (\<lambda>x. f x = sg) r = []"
      by (intro filter_all2_none [where R = R and gs = gs]) auto
    moreover have "f y = sg" using Cons.hyps(1) Cons.prems(2) True by auto
    ultimately show ?thesis using Cons.hyps(1) True by auto
  next
    case False
    with Cons.prems have mem: "(sg, grp) \<in> set gs" by auto
    then have "fst kg \<noteq> sg" using Cons.prems(1) by (auto simp: image_iff)
    moreover have "f y = fst kg" using Cons.hyps(1) Cons.prems(2) by auto
    moreover from Cons.IH mem Cons.prems
    have "\<exists>y. R (sg, grp) y \<and> filter (\<lambda>x. f x = sg) r = [y]" by auto
    ultimately show ?thesis by auto
  qed
qed

lemma compute_signature_legs: "legs a = legs b \<Longrightarrow> compute_signature a = compute_signature b"
  by (simp add: compute_signature_def)

lemma deduplicate_group:
  assumes "grp = filter (\<lambda>x. compute_signature x = sg) itineraries"
    and "1 < length grp"
  shows "\<exists>r w. deduplicate itineraries = Inr r \<and> w \<in> set grp
           \<and> (\<forall>g \<in> set grp. best_key w \<le> best_key g)
           \<and> hd (filter (\<lambda>g. best_key g = best_key w) grp) = w
           \<and> filter (\<lambda>x. compute_signature x = sg) r = [with_others_noted w grp]"
proof -
  let ?gs = "group_by_signature itineraries"
  let ?R = "\<lambda>(k, g) y. (length g = 1 \<and> y = hd g) \<or> (length g \<noteq> 1 \<and> select_best g = Inr y)"
  have "length grp \<le> length itineraries" unfolding assms(1) by (rule length_filter_le)
  with assms(2) have long: "1 < length itineraries" by simp
  have ne: "\<forall>(k, g) \<in> set ?gs. g \<noteq> []"
    using group_by_signature_iff by auto
  from dedupe_loop_all2 [OF ne, of "[]"] obtain r where
    r: "dedupe_loop ?gs [] = Inr r" and all2: "list_all2 ?R ?gs r" by auto
  have ded: "deduplicate itineraries = Inr r"
    using long r by (simp add: deduplicate_def)
  have sig: "\<forall>kg \<in> set ?gs. \<forall>y. ?R kg y \<longrightarrow> compute_signature y = fst kg"
  proof (intro ballI allI impI)
    fix kg y assume kg: "kg \<in> set ?gs" and R: "?R kg y"
    obtain k g where eq: "kg = (k, g)" by (cases kg)
    from kg eq have g: "g \<noteq> []" "g = filter (\<lambda>x. compute_signature x = k) itineraries"
      using group_by_signature_iff by auto
    then have all: "\<forall>x \<in> set g. compute_signature x = k"
      by simp
    show "compute_signature y = fst kg"
    proof (cases "length g = 1")
      case True
      with R eq g(1) have "y \<in> set g" by auto
      with all eq show ?thesis by simp
    next
      case False
      with R eq have sb: "select_best g = Inr y" by simp
      from select_best_legs [OF g(1)] sb obtain w where "w \<in> set g" "legs y = legs w" by auto
      with all eq show ?thesis using compute_signature_legs [of y w] by simp
    qed
  qed
  have mem: "(sg, grp) \<in> set ?gs"
    using assms group_by_signature_iff by auto
  from filter_all2_one [OF all2 distinct_keys_group_by_signature sig mem]
  obtain y where y: "?R (sg, grp) y" and f: "filter (\<lambda>x. compute_signature x = sg) r = [y]"
    by blast
  from y assms(2) have sb: "select_best grp = Inr y" by simp
  from select_best_winner [OF assms(2)] sb f ded show ?thesis by auto
qed

lemma deduplicate_pair:
  assumes "compute_signature a = compute_signature b"
    and "best_key a \<le> best_key b" and "\<not> best_key b \<le> best_key a"
  shows "deduplicate [a, b]
           = Inr [if itinerary_id a = itinerary_id b then a
                  else with_note_once (''Also available via: '' @ provider_name (provider b)) a]"
    and "deduplicate [b, a]
           = Inr [if itinerary_id a = itinerary_id b then a
                  else with_note_once (''Also available via: '' @ provider_name (provider b)) a]"
proof -
  have sb1: "select_best [a, b]
      = Inr (if itinerary_id a = itinerary_id b then a
             else with_note_once (''Also available via: '' @ provider_name (provider b)) a)"
    using assms(2) by (simp add: select_best_def with_note_once_def)
  have sb2: "select_best [b, a]
      = Inr (if itinerary_id a = itinerary_id b then a
             else with_note_once (''Also available via: '' @ provider_name (provider b)) a)"
    using assms(3) by (simp add: select_best_def with_note_once_def)
  show "deduplicate [a, b]
           = Inr [if itinerary_id a = itinerary_id b then a
                  else with_note_once (''Also available via: '' @ provider_name (provider b)) a]"
    using assms(1) by (simp add: deduplicate_def group_by_signature_def sb1)
  show "deduplicate [b, a]
           = Inr [if itinerary_id a = itinerary_id b then a
                  else with_note_once (''Also available via: '' @ provider_name (provider b)) a]"
    using assms(1) by (simp add: deduplicate_def group_by_signature_def sb2)
qed

lemma with_note_once_fields:
  "compute_signature (with_note_once note a) = compute_signature a"
  "best_key (with_note_once note a) = best_key a"
  "price (with_note_once note a) = price a"
  "itinerary_id (with_note_once note a) = itinerary_id a"
  "with_note_once note (with_note_once note a) = with_note_once note a"
  by (simp_all add: with_note_once_def append_note_def compute_signature_def best_key_def)

lemma count_with_note_once:
  "count_list (provider_notes (provider (with_note_once note a))) note
     = max 1 (count_list (provider_notes (provider a)) note)"
proof (cases "note \<in> set (provider_notes (provider a))")
  case True
  then have "count_list (provider_notes (provider a)) note \<noteq> 0"
    by (simp add: count_list_0_iff)
  with True show ?thesis by (simp add: with_note_once_def)
next
  case False
  then show ?thesis by (simp add: with_note_once_def append_note_def)
qed

lemma deduplicate_pair_twice:
  assumes "compute_signature a = compute_signature b"
    and "best_key a \<le> best_key b" and "\<not> best_key b \<le> best_key a"
    and "r = (if itinerary_id a = itinerary_id b then a
              else with_note_once (''Also available via: '' @ provider_name (provider b)) a)"
  shows "deduplicate [r] = Inr [r]" and "deduplicate [r, b] = Inr [r]"
proof -
  show "deduplicate [r] = Inr [r]" by (simp add: deduplicate_def)
  have f: "compute_signature r = compute_signature b" "best_key r = best_key a"
    "itinerary_id r = itinerary_id a"
    using assms(1,4) by (simp_all add: with_note_once_fields)
  have "deduplicate [r, b]
      = Inr [if itinerary_id r = itinerary_id b then r
             else with_note_once (''Also available via: '' @ provider_name (provider b)) r]"
    using f assms(2,3) by (intro deduplicate_pair(1)) simp_all
  then show "deduplicate [r, b] = Inr [r]"
    using assms(4) f(3) by (simp add: with_note_once_fields)
qed

text \<open>
  C4 (as the code has it). The candidates of a list that share a signature form a group.
  For every group of more than one candidate, the result of \<open>deduplicate\<close> holds exactly
  one candidate of that signature: the member of the group that is least under the sort
  key (lower price first, and at equal price higher trust first), the first such in the
  list; it carries the note naming the providers of the members whose itinerary id
  differs from its own, appended only when there is such a member and that very note is
  not yet among its notes. For two candidates of one signature priced 100 and 120, in
  either order, the result is the single candidate priced 100; when their itinerary ids
  differ, the note naming the other provider occurs in its notes once if it was not there
  before, and as often as before otherwise; when their itinerary ids are equal, the
  winner is returned as it is. Applying \<open>deduplicate\<close> again, to the result or to the
  winner together with the other candidate, gives the same result. At equal price the
  candidate of higher trust wins, in either order.
\<close>

theorem deduplicate_keeps_cheapest:
  "(grp = filter (\<lambda>x. compute_signature x = sg) itineraries \<and> 1 < length grp
    \<longrightarrow> (\<exists>r w. deduplicate itineraries = Inr r \<and> w \<in> set grp
           \<and> (\<forall>g \<in> set grp. total_usd (price w) < total_usd (price g)
                  \<or> (total_usd (price w) = total_usd (price g)
                     \<and> trust_score (provider g) \<le> trust_score (provider w)))
           \<and> hd (filter (\<lambda>g. total_usd (price g) = total_usd (price w)
                              \<and> trust_score (provider g) = trust_score (provider w)) grp) = w
           \<and> filter (\<lambda>x. compute_signature x = sg) r = [with_others_noted w grp]))
   \<and> (compute_signature a = compute_signature b
      \<and> total_usd (price a) = 100 \<and> total_usd (price b) = 120
    \<longrightarrow> (\<exists>r. deduplicate [a, b] = Inr [r] \<and> deduplicate [b, a] = Inr [r]
           \<and> total_usd (price r) = 100
           \<and> r = (if itinerary_id a = itinerary_id b then a
                   else with_note_once
                          (''Also available via: '' @ provider_name (provider b)) a)
           \<and> (itinerary_id a \<noteq> itinerary_id b \<longrightarrow>
                count_list (provider_notes (provider r))
                  (''Also available via: '' @ provider_name (provider b))
                = max 1 (count_list (provider_notes (provider a))
                           (''Also available via: '' @ provider_name (provider b))))
           \<and> deduplicate [r] = Inr [r] \<and> deduplicate [r, b] = Inr [r]))
   \<and> (compute_signature c = compute_signature d
      \<and> total_usd (price c) = total_usd (price d)
      \<and> trust_score (provider d) < trust_score (provider c)
    \<longrightarrow> deduplicate [c, d]
          = Inr [if itinerary_id c = itinerary_id d then c
                 else with_note_once
                        (''Also available via: '' @ provider_name (provider d)) c]
        \<and> deduplicate [d, c]
          = Inr [if itinerary_id c = itinerary_id d then c
                 else with_note_once
                        (''Also available via: '' @ provider_name (provider d)) c])"
proof (intro conjI impI)
  assume "grp = filter (\<lambda>x. compute_signature x = sg) itineraries \<and> 1 < length grp"
  then have "\<exists>r w. deduplicate itineraries = Inr r \<and> w \<in> set grp
           \<and> (\<forall>g \<in> set grp. best_key w \<le> best_key g)
           \<and> hd (filter (\<lambda>g. best_key g = best_key w) grp) = w
           \<and> filter (\<lambda>x. compute_signature x = sg) r = [with_others_noted w grp]"
    using deduplicate_group [of grp sg itineraries] by blast
  then show "\<exists>r w. deduplicate itineraries = Inr r \<and> w \<in> set grp
           \<and> (\<forall>g \<in> set grp. total_usd (price w) < total_usd (price g)
                  \<or> (total_usd (price w) = total_usd (price g)
                     \<and> trust_score (provider g) \<le> trust_score (provider w)))
           \<and> hd (filter (\<lambda>g. total_usd (price g) = total_usd (price w)
                              \<and> trust_score (provider g) = trust_score (provider w)) grp) = w
           \<and> filter (\<lambda>x. compute_signature x = sg) r = [with_others_noted w grp]"
    by (simp only: best_key_le best_key_eq)
next
  let ?note = "''Also available via: '' @ provider_name (provider b)"
  let ?r = "if itinerary_id a = itinerary_id b then a else with_note_once ?note a"
  assume h: "compute_signature a = compute_signature b
      \<and> total_usd (price a) = 100 \<and> total_usd (price b) = 120"
  then have sg: "compute_signature a = compute_signature b"
    and pa: "total_usd (price a) = 100" and pb: "total_usd (price b) = 120" by auto
  have le: "best_key a \<le> best_key b" and nle: "\<not> best_key b \<le> best_key a"
    using pa pb by (simp_all add: best_key_le)
  have 1: "deduplicate [a, b] = Inr [?r]" and 2: "deduplicate [b, a] = Inr [?r]"
    using deduplicate_pair [OF sg le nle] by auto
  have 3: "total_usd (price ?r) = 100" using pa by (simp add: with_note_once_fields)
  have 4: "itinerary_id a \<noteq> itinerary_id b \<longrightarrow>
      count_list (provider_notes (provider ?r)) ?note
        = max 1 (count_list (provider_notes (provider a)) ?note)"
    by (simp add: count_with_note_once)
  have 5: "deduplicate [?r] = Inr [?r]" and 6: "deduplicate [?r, b] = Inr [?r]"
    using deduplicate_pair_twice [OF sg le nle refl] by auto
  from 1 2 3 4 5 6 show "\<exists>r. deduplicate [a, b] = Inr [r] \<and> deduplicate [b, a] = Inr [r]
           \<and> total_usd (price r) = 100
           \<and> r = (if itinerary_id a = itinerary_id b then a else with_note_once ?note a)
           \<and> (itinerary_id a \<noteq> itinerary_id b \<longrightarrow>
                count_list (provider_notes (provider r)) ?note
                = max 1 (count_list (provider_notes (provider a)) ?note))
           \<and> deduplicate [r] = Inr [r] \<and> deduplicate [r, b] = Inr [r]"
    by blast
next
  assume h: "compute_signature c = compute_signature d
      \<and> total_usd (price c) = total_usd (price d)
      \<and> trust_score (provider d) < trust_score (provider c)"
  then have sg: "compute_signature c = compute_signature d" by simp
  have le: "best_key c \<le> best_key d" and nle: "\<not> best_key d \<le> best_key c"
    using h by (simp_all add: best_key_le)
  show "deduplicate [c, d]
          = Inr [if itinerary_id c = itinerary_id d then c
                 else with_note_once
                        (''Also available via: '' @ provider_name (provider d)) c]"
    using deduplicate_pair(1) [OF sg le nle] .
  show "deduplicate [d, c]
          = Inr [if itinerary_id c = itinerary_id d then c
                 else with_note_once
                        (''Also available via: '' @ provider_name (provider d)) c]"
    using deduplicate_pair(2) [OF sg le nle] .
qed

lemmas offer_defs = offer_100_def offer_120_def offer_120_same_id_def offer_120_trusted_def
  example_itinerary_def

text \<open>
  C4 (as the specification words it) fails: of two offers of one signature for 100 and 120
  that carry the same itinerary id, the one for 100 is kept without any note, so its notes
  do not mention the other provider.
\<close>

theorem deduplicate_same_id_no_note:
  "compute_signature offer_100 = compute_signature offer_120_same_id
   \<and> total_usd (price offer_100) = 100 \<and> total_usd (price offer_120_same_id) = 120
   \<and> provider_name (provider offer_120_same_id) = ''skyscanner''
   \<and> deduplicate [offer_100, offer_120_same_id] = Inr [offer_100]
   \<and> provider_notes (provider offer_100) = []"
  by (simp add: deduplicate_def group_by_signature_def select_best_def compute_signature_def
      best_key_def less_eq_prod_def offer_defs)

theorem deduplicate_keeps_cheapest_witness:
  "deduplicate [offer_100, offer_120]
     = Inr [append_note ''Also available via: skyscanner'' offer_100]
   \<and> deduplicate [offer_120, offer_100]
     = Inr [append_note ''Also available via: skyscanner'' offer_100]
   \<and> deduplicate [append_note ''Also available via: skyscanner'' offer_100, offer_120]
     = Inr [append_note ''Also available via: skyscanner'' offer_100]
   \<and> provider_notes (provider (append_note ''Also available via: skyscanner'' offer_100))
     = [''Also available via: skyscanner'']
   \<and> deduplicate [offer_120, offer_120_trusted]
     = Inr [append_note ''Also available via: skyscanner'' offer_120_trusted]
   \<and> deduplicate [offer_120_trusted, offer_120]
     = Inr [append_note ''Also available via: skyscanner'' offer_120_trusted]"
proof -
  let ?its = "[offer_100, offer_120]"
  let ?sg = "compute_signature offer_100"
  have sg: "compute_signature offer_100 = compute_signature offer_120"
    by (simp add: compute_signature_def offer_defs)
  have sg': "compute_signature offer_120_trusted = compute_signature offer_120"
    by (simp add: compute_signature_def offer_defs)
  have a: "?its = filter (\<lambda>x. compute_signature x = ?sg) ?its \<and> 1 < length ?its"
    using sg by simp
  have b: "compute_signature offer_100 = compute_signature offer_120
      \<and> total_usd (price offer_100) = 100 \<and> total_usd (price offer_120) = 120"
    using sg by (simp add: offer_defs)
  have c: "compute_signature offer_120_trusted = compute_signature offer_120
      \<and> total_usd (price offer_120_trusted) = total_usd (price offer_120)
      \<and> trust_score (provider offer_120) < trust_score (provider offer_120_trusted)"
    using sg' by (simp add: offer_defs)
  have ids: "itinerary_id offer_100 \<noteq> itinerary_id offer_120"
    "itinerary_id offer_120_trusted \<noteq> itinerary_id offer_120"
    by (simp_all add: offer_defs)
  have n: "provider_name (provider offer_120) = ''skyscanner''" by (simp add: offer_defs)
  have fresh: "provider_notes (provider offer_100) = []"
    "provider_notes (provider offer_120_trusted) = []"
    by (simp_all add: offer_defs)
  have w1: "with_note_once ''Also available via: skyscanner'' offer_100
      = append_note ''Also available via: skyscanner'' offer_100"
    and w2: "with_note_once ''Also available via: skyscanner'' offer_120_trusted
      = append_note ''Also available via: skyscanner'' offer_120_trusted"
    by (simp_all add: with_note_once_def fresh)
  note inst = deduplicate_keeps_cheapest
    [of ?its ?sg ?its offer_100 offer_120 offer_120_trusted offer_120]
  from mp [OF inst [THEN conjunct1] a]
  have p1: "\<exists>r w. deduplicate ?its = Inr r \<and> w \<in> set ?its" by blast
  from mp [OF inst [THEN conjunct2, THEN conjunct1] b] obtain r where
    r: "deduplicate [offer_100, offer_120] = Inr [r]"
       "deduplicate [offer_120, offer_100] = Inr [r]"
       "r = (if itinerary_id offer_100 = itinerary_id offer_120 then offer_100
             else with_note_once
                    (''Also available via: '' @ provider_name (provider offer_120)) offer_100)"
       "deduplicate [r, offer_120] = Inr [r]"
    by blast
  have req: "r = append_note ''Also available via: skyscanner'' offer_100"
    using r(3) ids(1) by (simp add: n w1)
  note p2 = r(1,2,4) [unfolded req]
  from mp [OF inst [THEN conjunct2, THEN conjunct2] c]
  have t: "deduplicate [offer_120_trusted, offer_120]
        = Inr [if itinerary_id offer_120_trusted = itinerary_id offer_120 then offer_120_trusted
               else with_note_once
                      (''Also available via: '' @ provider_name (provider offer_120))
                      offer_120_trusted]"
    "deduplicate [offer_120, offer_120_trusted]
        = Inr [if itinerary_id offer_120_trusted = itinerary_id offer_120 then offer_120_trusted
               else with_note_once
                      (''Also available via: '' @ provider_name (provider offer_120))
                      offer_120_trusted]"
    by blast+
  have teq: "(if itinerary_id offer_120_trusted = itinerary_id offer_120 then offer_120_trusted
               else with_note_once
                      (''Also available via: '' @ provider_name (provider offer_120))
                      offer_120_trusted)
      = append_note ''Also available via: skyscanner'' offer_120_trusted"
    using ids(2) by (simp add: n w2)
  note p3 = t [unfolded teq]
  have p4: "provider_notes (provider (append_note ''Also available via: skyscanner'' offer_100))
      = [''Also available via: skyscanner'']"
    by (simp add: append_note_def fresh)
  from p2 p3 p4 show ?thesis by (intro conjI)
qed

section \<open>Ranker: properties\<close>

lemma py_min_Cons: "py_min (x # xs) = Inr (Min (set (x # xs)))"
  by (simp only: py_min.simps Min.set_eq_fold)

lemma py_max_Cons: "py_max (x # xs) = Inr (Max (set (x # xs)))"
  by (simp only: py_max.simps Max.set_eq_fold)

lemma py_round_bounds: "\<lfloor>x\<rfloor> \<le> py_round x \<and> py_round x \<le> \<lceil>x\<rceil>"
proof -
  have "x - of_int \<lfloor>x\<rfloor> \<ge> 1 / 2 \<Longrightarrow> \<lfloor>x\<rfloor> + 1 \<le> \<lceil>x\<rceil>"
    by (auto simp: ceiling_altdef)
  moreover have "\<lfloor>x\<rfloor> \<le> \<lceil>x\<rceil>" by (rule floor_le_ceiling)
  ultimately show ?thesis by (auto simp: py_round_def Let_def)
qed

lemma round2_in_range:
  assumes "in_score_range x"
  shows "in_score_range (round2 x)"
proof -
  from assms have x: "0 \<le> x * 100" "x * 100 \<le> 10000" by (simp_all add: in_score_range_def)
  have "0 \<le> \<lfloor>x * 100\<rfloor>" using x(1) by simp
  then have lo: "0 \<le> py_round (x * 100)" using py_round_bounds [of "x * 100"] by linarith
  have "\<lceil>x * 100\<rceil> \<le> 10000" using x(2) by (simp add: ceiling_le_iff)
  then have hi: "py_round (x * 100) \<le> 10000" using py_round_bounds [of "x * 100"] by linarith
  from lo hi show ?thesis by (simp add: in_score_range_def round2_def)
qed

lemma normalised_in_range:
  fixes v mn mx :: real
  assumes "mn \<le> v" and "v \<le> mx" and "mx \<noteq> mn"
  shows "in_score_range (100 * (1 - (v - mn) / (mx - mn)))"
proof -
  from assms have pos: "0 < mx - mn" by simp
  define q where "q = (v - mn) / (mx - mn)"
  have "0 \<le> q" using assms pos by (simp add: q_def)
  moreover have "q \<le> 1" using assms pos by (simp add: q_def divide_le_eq)
  ultimately have "in_score_range (100 * (1 - q))" by (simp add: in_score_range_def)
  then show ?thesis by (simp only: q_def)
qed

lemma score_price_in_range:
  assumes "itinerary \<in> set all_itineraries"
  shows "\<exists>p. score_price itinerary all_itineraries = Inr p \<and> in_score_range p"
proof -
  let ?prices = "map (\<lambda>itin. total_usd (price itin)) all_itineraries"
  from assms obtain y ys where c: "?prices = y # ys" by (cases all_itineraries) auto
  have mem: "total_usd (price itinerary) \<in> set ?prices" using assms by auto
  have lo: "Min (set ?prices) \<le> total_usd (price itinerary)" using mem by (intro Min_le) auto
  have hi: "total_usd (price itinerary) \<le> Max (set ?prices)" using mem by (intro Max_ge) auto
  have mn: "py_min ?prices = Inr (Min (set ?prices))" unfolding c by (rule py_min_Cons)
  have mx: "py_max ?prices = Inr (Max (set ?prices))" unfolding c by (rule py_max_Cons)
  show ?thesis
  proof (cases "Max (set ?prices) = Min (set ?prices)")
    case True
    then show ?thesis by (simp add: score_price_def mn mx in_score_range_def)
  next
    case False
    from normalised_in_range [OF lo hi False] round2_in_range
    show ?thesis using False by (simp add: score_price_def mn mx)
  qed
qed

lemma score_duration_in_range:
  assumes "itinerary \<in> set all_itineraries"
  shows "\<exists>d. score_duration itinerary all_itineraries = Inr d \<and> in_score_range d"
proof -
  let ?durs = "map total_duration_minutes all_itineraries"
  from assms obtain y ys where c: "?durs = y # ys" by (cases all_itineraries) auto
  have mem: "total_duration_minutes itinerary \<in> set ?durs" using assms by auto
  have lo: "Min (set ?durs) \<le> total_duration_minutes itinerary" using mem by (intro Min_le) auto
  have hi: "total_duration_minutes itinerary \<le> Max (set ?durs)" using mem by (intro Max_ge) auto
  have mn: "py_min ?durs = Inr (Min (set ?durs))" unfolding c by (rule py_min_Cons)
  have mx: "py_max ?durs = Inr (Max (set ?durs))" unfolding c by (rule py_max_Cons)
  show ?thesis
  proof (cases "Max (set ?durs) = Min (set ?durs)")
    case True
    then show ?thesis by (simp add: score_duration_def mn mx in_score_range_def)
  next
    case False
    have "in_score_range (100 * (1 - (real_of_int (total_duration_minutes itinerary)
              - real_of_int (Min (set ?durs)))
            / (real_of_int (Max (set ?durs)) - real_of_int (Min (set ?durs)))))"
      using lo hi False by (intro normalised_in_range) simp_all
    with round2_in_range show ?thesis using False by (simp add: score_duration_def mn mx)
  qed
qed

lemma score_stops_in_range: "in_score_range (of_int (score_stops x))"
  by (simp add: score_stops_def in_score_range_def)

lemma layover_points_in_range: "in_score_range (layover_points l)"
  by (simp add: layover_points_def in_score_range_def Let_def)

lemma sum_list_bounds:
  fixes f :: "'a \<Rightarrow> real"
  assumes "\<forall>x \<in> set xs. 0 \<le> f x \<and> f x \<le> c"
  shows "0 \<le> sum_list (map f xs) \<and> sum_list (map f xs) \<le> c * of_nat (length xs)"
  using assms by (induction xs) (auto simp: algebra_simps)

lemma score_layovers_in_range: "in_score_range (score_layovers x)"
proof (cases "layovers x = []")
  case True
  then show ?thesis by (simp add: score_layovers_def in_score_range_def)
next
  case False
  then have n: "0 < real (length (layovers x))" by simp
  have "\<forall>l \<in> set (layovers x). 0 \<le> layover_points l \<and> layover_points l \<le> 100"
    using layover_points_in_range by (simp add: in_score_range_def)
  from sum_list_bounds [OF this] n
  have "in_score_range (sum_list (map layover_points (layovers x)) / real (length (layovers x)))"
    by (simp add: in_score_range_def divide_le_eq)
  then show ?thesis using False by (simp add: score_layovers_def round2_in_range)
qed

lemma score_baggage_in_range: "in_score_range (of_int (score_baggage x))"
proof -
  have "50 \<le> score_baggage_loop bags s" if "50 \<le> s" for bags s
    using that by (induction bags arbitrary: s) (simp_all add: Let_def)
  then have "50 \<le> score_baggage_loop (baggage x) 50" by simp
  then show ?thesis by (simp add: score_baggage_def in_score_range_def)
qed

lemma score_risk_in_range: "in_score_range (of_int (score_risk x))"
proof -
  have p: "0 \<le> risk_penalties r" for r by (cases r) (simp_all add: risk_penalties_def)
  have "score_risk_loop rs s \<le> s" for rs s
  proof (induction rs arbitrary: s)
    case Nil
    then show ?case by simp
  next
    case (Cons r rs)
    have "score_risk_loop rs (s - risk_penalties r) \<le> s - risk_penalties r" by (rule Cons.IH)
    with p [of r] show ?case by simp
  qed
  then have "score_risk_loop (risk_flags x) 100 \<le> 100" .
  then show ?thesis by (simp add: score_risk_def in_score_range_def)
qed

lemma score_reliability_in_range:
  assumes "schema_valid x"
  shows "in_score_range (score_reliability x)"
proof -
  let ?s0 = "50 + trust_score (provider x) * 25"
  let ?s1 = "if truthy (on_time_proxy (signals x))
             then ?s0 + the (on_time_proxy (signals x)) * 25 else ?s0"
  have "0 \<le> ?s1"
    using assms by (auto simp: schema_valid_def truthy_def split: option.splits)
  then have "in_score_range (min ?s1 100)" by (simp add: in_score_range_def)
  then show ?thesis unfolding score_reliability_def Let_def by (rule round2_in_range)
qed

lemma calculate_score_ok:
  assumes "itinerary \<in> set all_itineraries" and "schema_valid itinerary"
  shows "\<exists>b. calculate_score w itinerary all_itineraries
            = Inr (itinerary \<lparr> score := Some (round2 (weighted_sum b)),
                               score_breakdown := Some b \<rparr>)
          \<and> weights b = w"
proof -
  from score_price_in_range [OF assms(1)] obtain p where
    p: "score_price itinerary all_itineraries = Inr p" "in_score_range p" by blast
  from score_duration_in_range [OF assms(1)] obtain d where
    d: "score_duration itinerary all_itineraries = Inr d" "in_score_range d" by blast
  let ?b = "\<lparr> price_score = p, duration_score = d,
     stops_score = of_int (score_stops itinerary), layover_score = score_layovers itinerary,
     baggage_score = of_int (score_baggage itinerary), risk_score = of_int (score_risk itinerary),
     reliability_score = score_reliability itinerary, weights = w \<rparr>"
  have "new_ScoreBreakdown p d (of_int (score_stops itinerary)) (score_layovers itinerary)
      (of_int (score_baggage itinerary)) (of_int (score_risk itinerary))
      (score_reliability itinerary) w = Inr ?b"
    using p(2) d(2) score_stops_in_range score_layovers_in_range score_baggage_in_range
      score_risk_in_range score_reliability_in_range [OF assms(2)]
    by (simp add: new_ScoreBreakdown_def)
  then have "calculate_score w itinerary all_itineraries
      = Inr (itinerary \<lparr> score := Some (round2 (weighted_sum ?b)), score_breakdown := Some ?b \<rparr>)"
    by (simp add: calculate_score_def p(1) d(1) Let_def weighted_sum_def)
  then show ?thesis by (intro exI [of _ ?b]) simp
qed

lemma score_loop_ok:
  assumes "\<forall>x \<in> set rest. schema_valid x"
  shows "\<exists>r. score_loop w scored rest = Inr (scored @ r)
           \<and> list_all2 (\<lambda>x x'. \<exists>b. x' = x \<lparr> score := Some (round2 (weighted_sum b)),
                                              score_breakdown := Some b \<rparr>
                                   \<and> weights b = w) rest r"
  using assms
proof (induction rest arbitrary: scored)
  case Nil
  then show ?case by simp
next
  case (Cons x rest)
  have "x \<in> set (scored @ x # rest)" by simp
  moreover have "schema_valid x" using Cons.prems by simp
  ultimately obtain b where
    b: "calculate_score w x (scored @ x # rest)
          = Inr (x \<lparr> score := Some (round2 (weighted_sum b)), score_breakdown := Some b \<rparr>)"
       "weights b = w"
    using calculate_score_ok by blast
  let ?x' = "x \<lparr> score := Some (round2 (weighted_sum b)), score_breakdown := Some b \<rparr>"
  from Cons.prems have "\<forall>x \<in> set rest. schema_valid x" by simp
  from Cons.IH [OF this, of "scored @ [?x']"] obtain r where
    r: "score_loop w (scored @ [?x']) rest = Inr ((scored @ [?x']) @ r)"
       "list_all2 (\<lambda>x x'. \<exists>b. x' = x \<lparr> score := Some (round2 (weighted_sum b)),
                                              score_breakdown := Some b \<rparr>
                                   \<and> weights b = w) rest r"
    by blast
  show ?case
    using b r by (intro exI [of _ "?x' # r"]) auto
qed

lemma explain_loop_ok:
  "\<exists>r. explain_loop gen explained rest = explained @ r
         \<and> list_all2 (\<lambda>x x'. \<exists>e. x' = x \<lparr> explanation := Some e \<rparr>) rest r"
proof (induction rest arbitrary: explained)
  case Nil
  then show ?case by simp
next
  case (Cons x rest)
  let ?x' = "x \<lparr> explanation := Some (gen x (explained @ x # rest)) \<rparr>"
  from Cons.IH [of "explained @ [?x']"] obtain r where
    "explain_loop gen (explained @ [?x']) rest = (explained @ [?x']) @ r"
    "list_all2 (\<lambda>x x'. \<exists>e. x' = x \<lparr> explanation := Some e \<rparr>) rest r"
    by blast
  then show ?case by (intro exI [of _ "?x' # r"]) auto
qed

lemma list_all2_map_eq:
  assumes "list_all2 R xs ys" and "\<And>x y. R x y \<Longrightarrow> f y = f x"
  shows "map f ys = map f xs"
  using assms by (induction rule: list_all2_induct) auto

lemma list_all2_rightD:
  assumes "list_all2 R xs ys" and "y \<in> set ys"
  shows "\<exists>x \<in> set xs. R x y"
  using assms by (induction rule: list_all2_induct) auto

text \<open>
  C9. For every list of itineraries that meet the schema's field constraints,
  \<open>rank_itineraries\<close> returns, and what it returns is a permutation of its input: apart
  from the score, the breakdown and the explanation, which the ranker writes, the same
  itineraries appear, none dropped and none duplicated. Every returned itinerary has its
  breakdown, with the weights of the ranker, and its score, which is the weighted sum of
  the seven sub-scores of the breakdown rounded to 2 decimals.
\<close>

theorem rank_itineraries_permutation:
  assumes "\<forall>x \<in> set itineraries. schema_valid x"
  shows "\<exists>ranked. rank_itineraries w generate_explanation itineraries = Inr ranked
           \<and> mset (map unranked ranked) = mset (map unranked itineraries)
           \<and> (\<forall>x \<in> set ranked. \<exists>b. score_breakdown x = Some b \<and> weights b = w
                  \<and> score x = Some (round2 (weighted_sum b)))"
proof (cases "itineraries = []")
  case True
  then show ?thesis by (simp add: rank_itineraries_def)
next
  case False
  let ?S = "\<lambda>x x'. \<exists>b. x' = x \<lparr> score := Some (round2 (weighted_sum b)),
                                  score_breakdown := Some b \<rparr> \<and> weights b = w"
  let ?E = "\<lambda>x x'. \<exists>e. x' = x \<lparr> explanation := Some e \<rparr>"
  from score_loop_ok [OF assms, of w "[]"] obtain scored where
    sc: "score_loop w [] itineraries = Inr scored" and s2: "list_all2 ?S itineraries scored"
    by auto
  let ?ranked = "sort_key (\<lambda>x. - score_or_0 x) scored"
  from explain_loop_ok [of generate_explanation "[]" ?ranked] obtain final where
    ex: "explain_loop generate_explanation [] ?ranked = final"
    and e2: "list_all2 ?E ?ranked final" by auto
  have res: "rank_itineraries w generate_explanation itineraries = Inr final"
    using False sc ex by (simp add: rank_itineraries_def)
  have m1: "map unranked scored = map unranked itineraries"
    using s2 by (rule list_all2_map_eq) (auto simp: unranked_def)
  have m2: "map unranked final = map unranked ?ranked"
    using e2 by (rule list_all2_map_eq) (auto simp: unranked_def)
  have "mset (map unranked final) = mset (map unranked scored)"
    unfolding m2 by simp
  then have perm: "mset (map unranked final) = mset (map unranked itineraries)"
    by (simp add: m1)
  have scored_ok: "\<exists>b. score_breakdown x = Some b \<and> weights b = w
      \<and> score x = Some (round2 (weighted_sum b))" if "x \<in> set scored" for x
  proof -
    from list_all2_rightD [OF s2 that] obtain y where "?S y x" by blast
    then show ?thesis by auto
  qed
  have final_ok: "\<exists>b. score_breakdown x = Some b \<and> weights b = w
      \<and> score x = Some (round2 (weighted_sum b))" if "x \<in> set final" for x
  proof -
    from list_all2_rightD [OF e2 that] obtain y where y: "y \<in> set ?ranked" "?E y x"
      by blast
    then have "y \<in> set scored" by simp
    from scored_ok [OF this] y(2) show ?thesis by auto
  qed
  from res perm final_ok show ?thesis by blast
qed

lemma offers_valid: "\<forall>x \<in> set [offer_120, one_stop_itinerary, offer_100]. schema_valid x"
  by (simp add: schema_valid_def offer_100_def offer_120_def one_stop_itinerary_def
      example_itinerary_def)

lemmas rank_eval = rank_itineraries_def calculate_score_def score_price_def score_duration_def
  score_stops_def score_layovers_def layover_points_def score_baggage_def score_risk_def
  risk_penalties_def score_reliability_def new_ScoreBreakdown_def in_score_range_def
  round2_def py_round_def score_or_0_def truthy_def cheap_weights_def
  offer_100_def offer_120_def one_stop_itinerary_def example_itinerary_def example_layover_def

text \<open>A run on three candidates under the \<open>cheap\<close> profile: the ranked ids and scores.\<close>

lemma rank_example:
  "map (\<lambda>x. (itinerary_id x, score x))
     (projr (rank_itineraries cheap_weights (\<lambda>x all_ranked. ''Cheapest option.'')
        [offer_120, one_stop_itinerary, offer_100]))
   = [(''itin_abc123'', Some 81.25), (''itin_xyz789'', Some 75.87), (''itin_def456'', Some 26.25)]"
  by (simp add: rank_eval Let_def)

theorem rank_itineraries_permutation_witness:
  "(\<exists>ranked. rank_itineraries cheap_weights (\<lambda>x all_ranked. ''Cheapest option.'')
        [offer_120, one_stop_itinerary, offer_100] = Inr ranked
     \<and> mset (map unranked ranked)
         = mset (map unranked [offer_120, one_stop_itinerary, offer_100])
     \<and> (\<forall>x \<in> set ranked. \<exists>b. score_breakdown x = Some b \<and> weights b = cheap_weights
            \<and> score x = Some (round2 (weighted_sum b))))
   \<and> map (\<lambda>x. (itinerary_id x, score x))
       (projr (rank_itineraries cheap_weights (\<lambda>x all_ranked. ''Cheapest option.'')
          [offer_120, one_stop_itinerary, offer_100]))
     = [(''itin_abc123'', Some 81.25), (''itin_xyz789'', Some 75.87),
        (''itin_def456'', Some 26.25)]"
  using rank_itineraries_permutation [OF offers_valid] rank_example by blast

end
